theory Spec2Isabelle
  imports Main "HOL-Library.AList"
begin

section \<open>Python values shared by the encoder and the decoder\<close>

text \<open>
  Exceptions that escape the two scripts are values: every lookup, index and conversion
  of the source that can raise is a branch returning \<open>Inl\<close>.
\<close>

datatype py_error = KeyError | IndexError | ValueError | SystemExit string

text \<open>
  A Python \<open>dict\<close> keeps insertion order; it is an association list whose keys are
  unique. Assigning to a present key replaces the value in place, assigning to an
  absent key appends.
\<close>

type_synonym ('k, 'v) dict = "('k \<times> 'v) list"

definition dict_get :: "('k, 'v) dict \<Rightarrow> 'k \<Rightarrow> 'v option" where
  "dict_get d k = map_of d k"

definition dict_set :: "('k, 'v) dict \<Rightarrow> 'k \<Rightarrow> 'v \<Rightarrow> ('k, 'v) dict" where
  "dict_set d k v = AList.update k v d"

definition dict_index :: "('k, 'v) dict \<Rightarrow> 'k \<Rightarrow> py_error + 'v" where
  "dict_index d k = (case map_of d k of None \<Rightarrow> Inl KeyError | Some v \<Rightarrow> Inr v)"

text \<open>\<open>range(n)\<close> for an integer \<open>n\<close>: empty when \<open>n \<le> 0\<close>.\<close>

definition py_range :: "int \<Rightarrow> int list" where
  "py_range n = [0..n - 1]"

text \<open>\<open>enumerate(xs)\<close>.\<close>

definition py_enumerate :: "'a list \<Rightarrow> (int \<times> 'a) list" where
  "py_enumerate xs = zip (map int [0..<length xs]) xs"

text \<open>A \<open>for\<close> loop whose body may raise: the first exception ends the loop.\<close>

fun for_each :: "('a \<Rightarrow> 's \<Rightarrow> py_error + 's) \<Rightarrow> 'a list \<Rightarrow> 's \<Rightarrow> py_error + 's" where
  "for_each f [] s = Inr s"
| "for_each f (x # xs) s = (case f x s of Inl e \<Rightarrow> Inl e | Inr s' \<Rightarrow> for_each f xs s')"

subsection \<open>Decimal text of integers: \<open>str\<close> and \<open>int\<close>\<close>

definition digit_char :: "nat \<Rightarrow> char" where
  "digit_char d =
     (if d = 0 then CHR ''0'' else if d = 1 then CHR ''1'' else if d = 2 then CHR ''2''
      else if d = 3 then CHR ''3'' else if d = 4 then CHR ''4'' else if d = 5 then CHR ''5''
      else if d = 6 then CHR ''6'' else if d = 7 then CHR ''7'' else if d = 8 then CHR ''8''
      else CHR ''9'')"

function str_nat :: "nat \<Rightarrow> string" where
  "str_nat n = (if n < 10 then [digit_char n] else str_nat (n div 10) @ [digit_char (n mod 10)])"
  by pat_completeness auto
termination
  by (relation "measure id") auto

declare str_nat.simps [simp del]

definition str_int :: "int \<Rightarrow> string" where
  "str_int i = (if i < 0 then CHR ''-'' # str_nat (nat (- i)) else str_nat (nat i))"

definition digit_val :: "char \<Rightarrow> nat option" where
  "digit_val c = map_of (zip ''0123456789'' [0..<10]) c"

text \<open>
  The whitespace \<open>str.split()\<close> and \<open>str.strip()\<close> recognise among the bytes:
  tab, line feed, vertical tab, form feed, carriage return, the four separators
  \<open>0x1c..0x1f\<close> and the space.
\<close>

definition is_space :: "char \<Rightarrow> bool" where
  "is_space c = (let n = (of_char c :: nat) in (9 \<le> n \<and> n \<le> 13) \<or> (28 \<le> n \<and> n \<le> 32))"

definition py_strip :: "string \<Rightarrow> string" where
  "py_strip s = rev (dropWhile is_space (rev (dropWhile is_space s)))"

text \<open>\<open>s.split()\<close>: the maximal runs of non-whitespace.\<close>

fun split_ws_aux :: "string \<Rightarrow> string \<Rightarrow> string list" where
  "split_ws_aux w [] = (if w = [] then [] else [rev w])"
| "split_ws_aux w (c # cs) =
     (if is_space c then (if w = [] then split_ws_aux [] cs else rev w # split_ws_aux [] cs)
      else split_ws_aux (c # w) cs)"

definition py_split_ws :: "string \<Rightarrow> string list" where
  "py_split_ws s = split_ws_aux [] s"

text \<open>\<open>s.split(sep)\<close> for a one-character separator: empty fields are kept.\<close>

fun py_split :: "char \<Rightarrow> string \<Rightarrow> string list" where
  "py_split sep [] = [[]]"
| "py_split sep (c # cs) =
     (if c = sep then [] # py_split sep cs
      else (case py_split sep cs of [] \<Rightarrow> [[c]] | w # ws \<Rightarrow> (c # w) # ws))"

text \<open>
  \<open>int(s)\<close> on text: surrounding whitespace is dropped, one sign is allowed, and the
  digits may be grouped by single underscores. \<open>None\<close> stands for \<open>ValueError\<close>.
  Digits outside ASCII, which Python also accepts, are not bytes of this model.
\<close>

fun digits_value :: "nat \<Rightarrow> bool \<Rightarrow> string \<Rightarrow> nat option" where
  "digits_value acc after_digit [] = (if after_digit then Some acc else None)"
| "digits_value acc after_digit (c # cs) =
     (if c = CHR ''_'' then (if after_digit then digits_value acc False cs else None)
      else (case digit_val c of None \<Rightarrow> None | Some d \<Rightarrow> digits_value (10 * acc + d) True cs))"

definition py_int :: "string \<Rightarrow> int option" where
  "py_int s =
     (case py_strip s of
        [] \<Rightarrow> None
      | c # cs \<Rightarrow>
          if c = CHR ''-'' then map_option (\<lambda>n. - int n) (digits_value 0 False cs)
          else if c = CHR ''+'' then map_option int (digits_value 0 False cs)
          else map_option int (digits_value 0 False (c # cs)))"

text \<open>\<open>s.upper()\<close> on ASCII letters.\<close>

definition upper_char :: "char \<Rightarrow> char" where
  "upper_char c =
     (case map_of (zip ''abcdefghijklmnopqrstuvwxyz'' ''ABCDEFGHIJKLMNOPQRSTUVWXYZ'') c of
        None \<Rightarrow> c | Some u \<Rightarrow> u)"

definition py_upper :: "string \<Rightarrow> string" where
  "py_upper s = map upper_char s"

text \<open>\<open>sep.join(ws)\<close>.\<close>

fun py_join :: "string \<Rightarrow> string list \<Rightarrow> string" where
  "py_join sep [] = []"
| "py_join sep [w] = w"
| "py_join sep (w # ws) = w @ sep @ py_join sep ws"

subsection \<open>Directions\<close>

definition DIRS :: "(string, int \<times> int) dict" where
  "DIRS = [(''R'', (1, 0)), (''L'', (-1, 0)), (''U'', (0, -1)), (''D'', (0, 1))]"

definition DIRS_LIST :: "string list" where
  "DIRS_LIST = [''R'', ''L'', ''U'', ''D'']"

definition REV_DIRS :: "(string, string) dict" where
  "REV_DIRS = [(''R'', ''L''), (''L'', ''R''), (''U'', ''D''), (''D'', ''U'')]"

definition STRAIGHT_PAIRS :: "(string \<times> string) set" where
  "STRAIGHT_PAIRS = {(''R'', ''L''), (''L'', ''R''), (''U'', ''D''), (''D'', ''U'')}"

section \<open>The decoder (decode.py)\<close>

type_synonym cell = "int \<times> int"
type_synonym edge = "int \<times> int \<times> int \<times> string"
type_synonym adjacency = "(cell, (cell \<times> string) list) dict"

text \<open>The part of the variable-map file the decoder reads.\<close>

record metadata =
  meta_lines :: "(cell \<times> cell) list"
  meta_K :: int
  meta_id_to_var :: "(string, string) dict"

text \<open>What the decoder leaves behind: the lines of the output file and the exit status.\<close>

record decoded =
  written :: "string list"
  exit_status :: int

text \<open>\<open>xs[i]\<close> for an integer index \<open>i\<close>; a negative one counts back from the end.\<close>

definition py_index :: "'a list \<Rightarrow> int \<Rightarrow> py_error + 'a" where
  "py_index xs i =
     (if 0 \<le> i \<and> i < int (length xs) then Inr (xs ! nat i)
      else if i < 0 \<and> - i \<le> int (length xs) then Inr (xs ! nat (int (length xs) + i))
      else Inl IndexError)"

text \<open>
  The ids assigned true: every token after the first line that converts to a positive
  integer, as text. The source keeps them in a \<open>set\<close>; here they are listed once each.
\<close>

definition true_vars_ids :: "string list \<Rightarrow> string list" where
  "true_vars_ids satlines =
     remdups (concat (map (\<lambda>line. concat (map (\<lambda>token.
        (case py_int token of
           None \<Rightarrow> []
         | Some val \<Rightarrow> if val > 0 then [str_int val] else [])) (py_split_ws line)))
       (tl satlines)))"

definition edge_of_name :: "string \<Rightarrow> py_error + edge" where
  "edge_of_name name =
     (case py_split (CHR ''_'') name of
        [u, k, x, y, D] \<Rightarrow>
          (case py_int k of None \<Rightarrow> Inl ValueError | Some k' \<Rightarrow>
           (case py_int x of None \<Rightarrow> Inl ValueError | Some x' \<Rightarrow>
            (case py_int y of None \<Rightarrow> Inl ValueError | Some y' \<Rightarrow> Inr (k', x', y', D))))
      | _ \<Rightarrow> Inl ValueError)"

definition add_true_edge :: "(string, string) dict \<Rightarrow> string \<Rightarrow> edge list \<Rightarrow> py_error + edge list" where
  "add_true_edge id_to_var vid_str E_true =
     (case dict_get id_to_var vid_str of
        None \<Rightarrow> Inr E_true
      | Some name \<Rightarrow>
          if take 2 name = ''E_'' then
            (case edge_of_name name of
               Inl e \<Rightarrow> Inl e
             | Inr ed \<Rightarrow> Inr (List.insert ed E_true))
          else Inr E_true)"

definition collect_true_edges :: "(string, string) dict \<Rightarrow> string list \<Rightarrow> py_error + edge list" where
  "collect_true_edges id_to_var ids = for_each (add_true_edge id_to_var) ids []"

subsection \<open>Path reconstruction\<close>

definition visit_neighbor ::
  "string list \<Rightarrow> cell \<times> string \<Rightarrow> (int \<times> int \<times> string list) list \<times> cell set
     \<Rightarrow> (int \<times> int \<times> string list) list \<times> cell set" where
  "visit_neighbor path_so_far nb qv =
     (case nb of (next_pos, direction) \<Rightarrow>
      case qv of (queue, visited) \<Rightarrow>
        if next_pos \<notin> visited
        then (queue @ [(fst next_pos, snd next_pos, path_so_far @ [direction])],
              insert next_pos visited)
        else (queue, visited))"

definition neighbors_of :: "adjacency \<Rightarrow> cell \<Rightarrow> (cell \<times> string) list" where
  "neighbors_of adj c = (case dict_get adj c of None \<Rightarrow> [] | Some ns \<Rightarrow> ns)"

definition adj_targets :: "adjacency \<Rightarrow> cell set" where
  "adj_targets adj = fst ` (\<Union>(k, ns) \<in> set adj. set ns)"

lemma finite_adj_targets: "finite (adj_targets adj)"
  by (auto simp: adj_targets_def)

lemma neighbors_of_targets: "fst ` set (neighbors_of adj c) \<subseteq> adj_targets adj"
proof (cases "dict_get adj c")
  case None
  then show ?thesis by (simp add: neighbors_of_def)
next
  case (Some ns)
  then have "(c, ns) \<in> set adj" by (simp add: dict_get_def map_of_SomeD)
  then have "set ns \<subseteq> (\<Union>(k, ns) \<in> set adj. set ns)" by blast
  then show ?thesis using Some by (auto simp: neighbors_of_def adj_targets_def)
qed

lemma visit_neighbor_pair:
  "visit_neighbor p (np, d) (q, v) =
     (if np \<notin> v then (q @ [(fst np, snd np, p @ [d])], insert np v) else (q, v))"
  by (simp add: visit_neighbor_def)

lemma card_diff_insert_new:
  assumes "finite T" and "np \<in> T" and "np \<notin> v"
  shows "Suc (card (T - insert np v)) = card (T - v)"
proof -
  have "T - v = insert np (T - insert np v)" using assms by auto
  moreover have "np \<notin> T - insert np v" by simp
  moreover have "finite (T - insert np v)" using assms by simp
  ultimately show ?thesis by (metis card_insert_disjoint)
qed

lemma fold_visit_measure:
  assumes "finite T" and "fst ` set ns \<subseteq> T"
    and "fold (visit_neighbor p) ns (q, v) = (q', v')"
  shows "2 * card (T - v') + length q' \<le> 2 * card (T - v) + length q"
  using assms(2,3)
proof (induction ns arbitrary: q v)
  case Nil
  then show ?case by simp
next
  case (Cons nb ns)
  obtain np d where nb: "nb = (np, d)" by (cases nb)
  from Cons.prems have sub: "fst ` set ns \<subseteq> T" by auto
  show ?case
  proof (cases "np \<in> v")
    case True
    with Cons.prems nb have "fold (visit_neighbor p) ns (q, v) = (q', v')"
      by (simp add: visit_neighbor_pair)
    from Cons.IH [OF sub this] show ?thesis .
  next
    case False
    from Cons.prems nb have npT: "np \<in> T" by auto
    from Cons.prems nb False
    have f: "fold (visit_neighbor p) ns (q @ [(fst np, snd np, p @ [d])], insert np v) = (q', v')"
      by (simp add: visit_neighbor_pair)
    have step: "2 * card (T - v') + length q'
        \<le> 2 * card (T - insert np v) + length (q @ [(fst np, snd np, p @ [d])])"
      by (rule Cons.IH [OF sub f])
    from card_diff_insert_new [OF assms(1) npT False] step
    show ?thesis by simp
  qed
qed

function bfs_loop ::
  "adjacency \<Rightarrow> cell \<Rightarrow> (int \<times> int \<times> string list) list \<Rightarrow> cell set \<Rightarrow> string list option" where
  "bfs_loop adj end [] visited = None"
| "bfs_loop adj end ((current_x, current_y, path_so_far) # queue) visited =
     (if (current_x, current_y) = end then Some path_so_far
      else (case fold (visit_neighbor path_so_far) (neighbors_of adj (current_x, current_y))
                   (queue, visited) of
              (queue', visited') \<Rightarrow> bfs_loop adj end queue' visited'))"
  by pat_completeness auto
termination
proof (relation "measure (\<lambda>(adj, e, q, v). 2 * card (adj_targets adj - v) + length q)", goal_cases)
  case 1
  show ?case by simp
next
  case (2 adj e cx cy p queue visited x1 x2)
  have "fold (visit_neighbor p) (neighbors_of adj (cx, cy)) (queue, visited) = (x1, x2)"
    using 2 by simp
  from fold_visit_measure [OF finite_adj_targets neighbors_of_targets this]
  show ?case by simp
qed

definition perform_bfs_search :: "adjacency \<Rightarrow> cell \<Rightarrow> cell \<Rightarrow> string list option" where
  "perform_bfs_search adj start end =
     (case start of (sx, sy) \<Rightarrow> bfs_loop adj end [(sx, sy, [])] {(sx, sy)})"

definition add_adjacent :: "int \<Rightarrow> edge \<Rightarrow> adjacency \<Rightarrow> py_error + adjacency" where
  "add_adjacent k ed adj =
     (case ed of (kk, x, y, D) \<Rightarrow>
        if kk \<noteq> k then Inr adj
        else (case dict_index DIRS D of
                Inl e \<Rightarrow> Inl e
              | Inr (dx, dy) \<Rightarrow>
                  let nx = x + dx; ny = y + dy;
                      adj1 = (if dict_get adj (x, y) = None then dict_set adj (x, y) [] else adj)
                  in Inr (dict_set adj1 (x, y) (neighbors_of adj1 (x, y) @ [((nx, ny), D)]))))"

definition build_adjacency_list_for_line :: "int \<Rightarrow> edge list \<Rightarrow> py_error + adjacency" where
  "build_adjacency_list_for_line k E_true = for_each (add_adjacent k) E_true []"

definition find_path_bfs ::
  "int \<Rightarrow> int \<Rightarrow> int \<Rightarrow> int \<Rightarrow> int \<Rightarrow> edge list \<Rightarrow> py_error + string list option" where
  "find_path_bfs k sx sy ex ey E_true =
     (case build_adjacency_list_for_line k E_true of
        Inl e \<Rightarrow> Inl e
      | Inr adjacency_list \<Rightarrow> Inr (perform_bfs_search adjacency_list (sx, sy) (ex, ey)))"

text \<open>
  The main loop: \<open>Inr (all_paths_found, output_lines)\<close>. A line without a path
  clears the flag and leaves the loop.
\<close>

fun decode_loop ::
  "edge list \<Rightarrow> (cell \<times> cell) list \<Rightarrow> int list \<Rightarrow> string list \<Rightarrow> py_error + bool \<times> string list" where
  "decode_loop E_true lines_spec [] output_lines = Inr (True, output_lines)"
| "decode_loop E_true lines_spec (k # ks) output_lines =
     (case py_index lines_spec k of
        Inl e \<Rightarrow> Inl e
      | Inr ((sx, sy), (ex, ey)) \<Rightarrow>
          (case find_path_bfs k sx sy ex ey E_true of
             Inl e \<Rightarrow> Inl e
           | Inr None \<Rightarrow> Inr (False, output_lines)
           | Inr (Some path) \<Rightarrow>
               decode_loop E_true lines_spec ks
                 (output_lines @ [py_join '' '' (path @ [''0''])])))"

text \<open>
  The decoder on the non-blank, stripped lines of the solver's output. \<open>E_true\<close> is a
  Python \<open>set\<close>, whose iteration order the language leaves open: \<open>iter\<close> is that order.
\<close>

definition decode :: "(edge list \<Rightarrow> edge list) \<Rightarrow> metadata \<Rightarrow> string list \<Rightarrow> py_error + decoded" where
  "decode iter meta satlines =
     (case satlines of
        [] \<Rightarrow> Inl IndexError
      | first # rest \<Rightarrow>
          if py_upper first = ''UNSAT'' then Inr \<lparr>written = [''0''], exit_status = 0\<rparr>
          else
            (case collect_true_edges (meta_id_to_var meta) (true_vars_ids satlines) of
               Inl e \<Rightarrow> Inl e
             | Inr E_true \<Rightarrow>
                 (case decode_loop (iter E_true) (meta_lines meta) (py_range (meta_K meta)) [] of
                    Inl e \<Rightarrow> Inl e
                  | Inr (all_paths_found, output_lines) \<Rightarrow>
                      if all_paths_found then Inr \<lparr>written = output_lines, exit_status = 0\<rparr>
                      else Inr \<lparr>written = [''0''], exit_status = 0\<rparr>)))"

section \<open>The encoder (encode.py)\<close>

subsection \<open>The problem description\<close>

text \<open>The values the input section of the script leaves in its globals.\<close>

record problem =
  mode :: int
  N :: int
  M :: int
  K :: int
  J :: int
  P :: int
  lines_spec :: "(cell \<times> cell) list"
  popular :: "cell list"








subsection \<open>Variables and clauses\<close>

record enc_state =
  var_to_id :: "(string, int) dict"
  id_to_var :: "(string, string) dict"
  next_var :: int
  clauses :: "int list list"

definition init_state :: enc_state where
  "init_state = \<lparr>var_to_id = [], id_to_var = [], next_var = 1, clauses = []\<rparr>"

definition add_clause :: "int list \<Rightarrow> enc_state \<Rightarrow> enc_state" where
  "add_clause lits st = st\<lparr>clauses := clauses st @ [lits]\<rparr>"

definition new_var :: "string \<Rightarrow> enc_state \<Rightarrow> int \<times> enc_state" where
  "new_var name st =
     (case dict_get (var_to_id st) name of
        Some v \<Rightarrow> (v, st)
      | None \<Rightarrow>
          (let vid = next_var st
           in (vid, st\<lparr>next_var := vid + 1,
                       var_to_id := dict_set (var_to_id st) name vid,
                       id_to_var := dict_set (id_to_var st) (str_int vid) name\<rparr>)))"

fun at_most_one :: "int list \<Rightarrow> enc_state \<Rightarrow> enc_state" where
  "at_most_one [] st = st"
| "at_most_one (v # vs) st = at_most_one vs (fold (\<lambda>w. add_clause [- v, - w]) vs st)"

text \<open>\<open>itertools.combinations\<close>: the sublists of a given length, in the order of positions.\<close>

fun combs :: "'a list \<Rightarrow> nat \<Rightarrow> 'a list list" where
  "combs xs 0 = [[]]"
| "combs [] (Suc r) = []"
| "combs (x # xs) (Suc r) = map ((#) x) (combs xs r) @ combs xs (Suc r)"

definition combinations :: "'a list \<Rightarrow> int \<Rightarrow> py_error + 'a list list" where
  "combinations xs r = (if r < 0 then Inl ValueError else Inr (combs xs (nat r)))"

definition exactly_k_if_L :: "int \<Rightarrow> int list \<Rightarrow> int \<Rightarrow> enc_state \<Rightarrow> py_error + enc_state" where
  "exactly_k_if_L l_var e_vars k st =
     (let n = int (length e_vars) in
      (case (if n > k
             then (case combinations e_vars (k + 1) of
                     Inl e \<Rightarrow> Inl e
                   | Inr subsets \<Rightarrow>
                       Inr (fold (\<lambda>subset. add_clause ([- l_var] @ map uminus subset)) subsets st))
             else Inr st) of
         Inl e \<Rightarrow> Inl e
       | Inr st1 \<Rightarrow>
           if k > 0
           then (case combinations e_vars (n - k + 1) of
                   Inl e \<Rightarrow> Inl e
                 | Inr subsets \<Rightarrow>
                     Inr (fold (\<lambda>subset. add_clause ([- l_var] @ subset)) subsets st1))
           else Inr st1))"

subsection \<open>The sequential counter\<close>

definition py_range2 :: "int \<Rightarrow> int \<Rightarrow> int list" where
  "py_range2 a b = [a..b - 1]"

definition mat_at :: "int list list \<Rightarrow> int \<Rightarrow> int \<Rightarrow> py_error + int" where
  "mat_at seq_matrix i j =
     (case py_index seq_matrix i of Inl e \<Rightarrow> Inl e | Inr row \<Rightarrow> py_index row j)"

definition counter_var :: "string \<Rightarrow> int \<Rightarrow> int \<Rightarrow> int list \<times> enc_state \<Rightarrow> int list \<times> enc_state" where
  "counter_var prefix i j rs =
     (case rs of (row_vars, st) \<Rightarrow>
        (case new_var (prefix @ ''_'' @ str_int i @ ''_'' @ str_int j) st of
           (v, st') \<Rightarrow> (row_vars @ [v], st')))"

definition counter_row :: "string \<Rightarrow> int \<Rightarrow> int \<Rightarrow> int list list \<times> enc_state
    \<Rightarrow> int list list \<times> enc_state" where
  "counter_row prefix k i ms =
     (case ms of (sequential_matrix, st) \<Rightarrow>
        (case fold (counter_var prefix i) (py_range (k + 1)) ([], st) of
           (row_vars, st') \<Rightarrow> (sequential_matrix @ [row_vars], st')))"

definition initialize_base_constraints ::
  "int list \<Rightarrow> int list list \<Rightarrow> int \<Rightarrow> enc_state \<Rightarrow> py_error + enc_state" where
  "initialize_base_constraints variables seq_matrix k st =
     (case py_index variables 0 of Inl e \<Rightarrow> Inl e | Inr first_var \<Rightarrow>
      (case mat_at seq_matrix 0 0 of Inl e \<Rightarrow> Inl e | Inr s00 \<Rightarrow>
         for_each (\<lambda>j st. case mat_at seq_matrix 0 j of
                             Inl e \<Rightarrow> Inl e
                           | Inr s \<Rightarrow> Inr (add_clause [- s] st))
           (py_range2 1 (k + 1)) (add_clause [- first_var, s00] st)))"

definition propagate_constraints ::
  "int list \<Rightarrow> int list list \<Rightarrow> int \<Rightarrow> int \<Rightarrow> enc_state \<Rightarrow> py_error + enc_state" where
  "propagate_constraints variables seq_matrix k i st =
     (case for_each (\<lambda>j st. case mat_at seq_matrix (i - 1) j of Inl e \<Rightarrow> Inl e | Inr a \<Rightarrow>
                            (case mat_at seq_matrix i j of Inl e \<Rightarrow> Inl e | Inr b \<Rightarrow>
                               Inr (add_clause [- a, b] st)))
             (py_range (k + 1)) st of
        Inl e \<Rightarrow> Inl e
      | Inr st1 \<Rightarrow>
          (case py_index variables i of Inl e \<Rightarrow> Inl e | Inr x \<Rightarrow>
           (case mat_at seq_matrix i 0 of Inl e \<Rightarrow> Inl e | Inr s0 \<Rightarrow>
              for_each (\<lambda>j st. case py_index variables i of Inl e \<Rightarrow> Inl e | Inr x \<Rightarrow>
                               (case mat_at seq_matrix (i - 1) (j - 1) of Inl e \<Rightarrow> Inl e | Inr a \<Rightarrow>
                                (case mat_at seq_matrix i j of Inl e \<Rightarrow> Inl e | Inr b \<Rightarrow>
                                   Inr (add_clause [- x, - a, b] st))))
                (py_range2 1 (k + 1)) (add_clause [- x, s0] st1))))"

definition add_at_most_k_constraint ::
  "int list \<Rightarrow> int \<Rightarrow> string \<Rightarrow> enc_state \<Rightarrow> py_error + enc_state" where
  "add_at_most_k_constraint variables k prefix st =
     (let num_vars = int (length variables) in
      if num_vars \<le> k then Inr st
      else
        (case fold (counter_row prefix k) (py_range num_vars) ([], st) of
           (sequential_matrix, st1) \<Rightarrow>
             (case initialize_base_constraints variables sequential_matrix k st1 of
                Inl e \<Rightarrow> Inl e
              | Inr st2 \<Rightarrow>
                  (case for_each (propagate_constraints variables sequential_matrix k)
                          (py_range2 1 num_vars) st2 of
                     Inl e \<Rightarrow> Inl e
                   | Inr st3 \<Rightarrow>
                       (case mat_at sequential_matrix (num_vars - 1) k of
                          Inl e \<Rightarrow> Inl e
                        | Inr s_top \<Rightarrow> Inr (add_clause [- s_top] st3))))))"

subsection \<open>Variable definitions\<close>

record var_tables =
  L_vars :: "(int \<times> int \<times> int, int) dict"
  E_vars :: "(int \<times> int \<times> int \<times> string, int) dict"
  T_vars :: "(int \<times> int \<times> int, int) dict"
  S_vars :: "(int \<times> int \<times> int, int) dict"
  cells_lines :: "(cell, int list) dict"

definition init_tables :: var_tables where
  "init_tables = \<lparr>L_vars = [], E_vars = [], T_vars = [], S_vars = [], cells_lines = []\<rparr>"

definition cell_name :: "string \<Rightarrow> int \<Rightarrow> int \<Rightarrow> int \<Rightarrow> string" where
  "cell_name family k x y = family @ ''_'' @ str_int k @ ''_'' @ str_int x @ ''_'' @ str_int y"

definition in_grid :: "problem \<Rightarrow> int \<Rightarrow> int \<Rightarrow> bool" where
  "in_grid p nx ny = (0 \<le> nx \<and> nx < N p \<and> 0 \<le> ny \<and> ny < M p)"

definition define_edge :: "problem \<Rightarrow> int \<Rightarrow> int \<Rightarrow> int \<Rightarrow> string
    \<Rightarrow> var_tables \<times> enc_state \<Rightarrow> py_error + var_tables \<times> enc_state" where
  "define_edge p k x y D vs =
     (case vs of (vt, st) \<Rightarrow>
        (case dict_index DIRS D of
           Inl e \<Rightarrow> Inl e
         | Inr (dx, dy) \<Rightarrow>
             if in_grid p (x + dx) (y + dy)
             then (case new_var (cell_name ''E'' k x y @ ''_'' @ D) st of
                     (v, st') \<Rightarrow> Inr (vt\<lparr>E_vars := dict_set (E_vars vt) (k, x, y, D) v\<rparr>, st'))
             else Inr (vt, st)))"

definition define_cell :: "problem \<Rightarrow> int \<Rightarrow> cell \<Rightarrow> cell \<Rightarrow> int \<Rightarrow> int
    \<Rightarrow> var_tables \<times> enc_state \<Rightarrow> py_error + var_tables \<times> enc_state" where
  "define_cell p k start end x y vs =
     (case vs of (vt, st) \<Rightarrow>
        (case new_var (cell_name ''L'' k x y) st of (l, st1) \<Rightarrow>
           let vt1 = vt\<lparr>L_vars := dict_set (L_vars vt) (k, x, y) l\<rparr>;
               vt2 = vt1\<lparr>cells_lines := dict_set (cells_lines vt1) (x, y)
                        ((case dict_get (cells_lines vt1) (x, y) of None \<Rightarrow> [] | Some vids \<Rightarrow> vids)
                         @ [l])\<rparr>;
               (vt3, st2) =
                 (if (x, y) \<noteq> start \<and> (x, y) \<noteq> end
                  then (case new_var (cell_name ''T'' k x y) st1 of
                          (t, st') \<Rightarrow> (vt2\<lparr>T_vars := dict_set (T_vars vt2) (k, x, y) t\<rparr>, st'))
                  else (vt2, st1))
           in (case new_var (cell_name ''S'' k x y) st2 of (s, st3) \<Rightarrow>
                 for_each (define_edge p k x y) DIRS_LIST
                   (vt3\<lparr>S_vars := dict_set (S_vars vt3) (k, x, y) s\<rparr>, st3))))"

definition define_line :: "problem \<Rightarrow> int \<times> cell \<times> cell
    \<Rightarrow> var_tables \<times> enc_state \<Rightarrow> py_error + var_tables \<times> enc_state" where
  "define_line p ks vs =
     (case ks of (k, start, end) \<Rightarrow>
        for_each (\<lambda>x. for_each (define_cell p k start end x) (py_range (M p))) (py_range (N p)) vs)"

definition define_vars :: "problem \<Rightarrow> py_error + var_tables \<times> enc_state" where
  "define_vars p = for_each (define_line p) (py_enumerate (lines_spec p)) (init_tables, init_state)"

subsection \<open>Constraints\<close>

text \<open>The truth value Python gives the result of \<open>dict.get\<close> on a table of ids.\<close>

definition truthy :: "int option \<Rightarrow> bool" where
  "truthy v = (case v of None \<Rightarrow> False | Some i \<Rightarrow> i \<noteq> 0)"

definition dir_pairs :: "(string \<times> string) list" where
  "dir_pairs =
     concat (map (\<lambda>(d1_index, D1).
                    map (\<lambda>d2_index. (D1, DIRS_LIST ! d2_index))
                      [d1_index + 1..<length DIRS_LIST])
             (enumerate 0 (butlast DIRS_LIST)))"

definition turn_pair :: "var_tables \<Rightarrow> int \<Rightarrow> int \<Rightarrow> int \<Rightarrow> int \<Rightarrow> int
    \<Rightarrow> string \<times> string \<Rightarrow> enc_state \<Rightarrow> enc_state" where
  "turn_pair vt k x y t_var l_var DD st =
     (case DD of (D1, D2) \<Rightarrow>
        (case (dict_get (E_vars vt) (k, x, y, D1), dict_get (E_vars vt) (k, x, y, D2)) of
           (Some e1, Some e2) \<Rightarrow>
             if e1 \<noteq> 0 \<and> e2 \<noteq> 0 then
               (if (D1, D2) \<notin> STRAIGHT_PAIRS
                then add_clause [- l_var, - e1, - e2, t_var] st
                else add_clause [- l_var, - e1, - e2, - t_var] st)
             else st
         | _ \<Rightarrow> st))"

definition turn_cell :: "var_tables \<Rightarrow> int \<Rightarrow> (int \<times> int \<times> int) \<times> int
    \<Rightarrow> int list \<times> enc_state \<Rightarrow> py_error + int list \<times> enc_state" where
  "turn_cell vt k item ts =
     (case item of ((line_k, x, y), t_var) \<Rightarrow>
      case ts of (turn_vars_for_line, st) \<Rightarrow>
        if line_k \<noteq> k then Inr (turn_vars_for_line, st)
        else (case dict_index (L_vars vt) (k, x, y) of
                Inl e \<Rightarrow> Inl e
              | Inr l_var \<Rightarrow>
                  Inr (turn_vars_for_line @ [t_var],
                       fold (turn_pair vt k x y t_var l_var) dir_pairs
                         (add_clause [- t_var, l_var] st))))"

definition turn_line :: "problem \<Rightarrow> var_tables \<Rightarrow> int \<times> cell \<times> cell
    \<Rightarrow> enc_state \<Rightarrow> py_error + enc_state" where
  "turn_line p vt ks st =
     (case ks of (k, start, end) \<Rightarrow>
        (case for_each (turn_cell vt k) (T_vars vt) ([], st) of
           Inl e \<Rightarrow> Inl e
         | Inr (turn_vars_for_line, st1) \<Rightarrow>
             if turn_vars_for_line \<noteq> []
             then add_at_most_k_constraint turn_vars_for_line (J p) (''s_k'' @ str_int k) st1
             else Inr st1))"

definition enforce_turn_constraints :: "problem \<Rightarrow> var_tables \<Rightarrow> enc_state \<Rightarrow> py_error + enc_state" where
  "enforce_turn_constraints p vt st = for_each (turn_line p vt) (py_enumerate (lines_spec p)) st"

definition enforce_unique_occupancy :: "var_tables \<Rightarrow> enc_state \<Rightarrow> enc_state" where
  "enforce_unique_occupancy vt st =
     fold (\<lambda>(c, vids) st. if length vids > 1 then at_most_one vids st else st) (cells_lines vt) st"

definition incident_edges :: "var_tables \<Rightarrow> int \<Rightarrow> int \<Rightarrow> int \<Rightarrow> int list" where
  "incident_edges vt k x y = List.map_filter (\<lambda>d. dict_get (E_vars vt) (k, x, y, d)) DIRS_LIST"

definition continuity_cell :: "var_tables \<Rightarrow> int \<Rightarrow> cell \<Rightarrow> cell \<Rightarrow> int \<Rightarrow> int
    \<Rightarrow> enc_state \<Rightarrow> py_error + enc_state" where
  "continuity_cell vt k start end x y st =
     (let lvid = dict_get (L_vars vt) (k, x, y) in
      if \<not> truthy lvid then Inr st
      else (case lvid of
              None \<Rightarrow> Inr st
            | Some l \<Rightarrow>
                if (x, y) = start \<or> (x, y) = end
                then exactly_k_if_L l (incident_edges vt k x y) 1 st
                else (case exactly_k_if_L l (incident_edges vt k x y) 2 st of
                        Inl e \<Rightarrow> Inl e
                      | Inr st1 \<Rightarrow>
                          Inr (fold (\<lambda>evid. add_clause [l, - evid]) (incident_edges vt k x y) st1))))"

definition continuity_line :: "problem \<Rightarrow> var_tables \<Rightarrow> int \<times> cell \<times> cell
    \<Rightarrow> enc_state \<Rightarrow> py_error + enc_state" where
  "continuity_line p vt ks st =
     (case ks of (k, start, end) \<Rightarrow>
        (case dict_index (L_vars vt) (k, fst start, snd start) of
           Inl e \<Rightarrow> Inl e
         | Inr ls \<Rightarrow>
             (case dict_index (L_vars vt) (k, fst end, snd end) of
                Inl e \<Rightarrow> Inl e
              | Inr le \<Rightarrow>
                  for_each (\<lambda>x. for_each (continuity_cell vt k start end x) (py_range (M p)))
                    (py_range (N p)) (add_clause [le] (add_clause [ls] st)))))"

definition enforce_path_continuity :: "problem \<Rightarrow> var_tables \<Rightarrow> enc_state \<Rightarrow> py_error + enc_state" where
  "enforce_path_continuity p vt st = for_each (continuity_line p vt) (py_enumerate (lines_spec p)) st"

definition enforce_popular_cell_constraint :: "problem \<Rightarrow> var_tables \<Rightarrow> enc_state \<Rightarrow> enc_state" where
  "enforce_popular_cell_constraint p vt st =
     (if mode p \<noteq> 2 \<or> popular p = [] then st
      else fold (\<lambda>(px, py) st.
                   let vids = (case dict_get (cells_lines vt) (px, py) of None \<Rightarrow> [] | Some vs \<Rightarrow> vs)
                   in if vids \<noteq> [] then add_clause vids st
                      else add_clause [- 1] (add_clause [1] st))
             (popular p) st)"

definition edge_location :: "var_tables \<Rightarrow> (int \<times> int \<times> int \<times> string) \<times> int
    \<Rightarrow> enc_state \<Rightarrow> py_error + enc_state" where
  "edge_location vt item st =
     (case item of ((k, x, y, D), evid) \<Rightarrow>
        (case dict_index (L_vars vt) (k, x, y) of Inl e \<Rightarrow> Inl e | Inr loc_var \<Rightarrow>
         (case dict_index DIRS D of Inl e \<Rightarrow> Inl e | Inr (dx, dy) \<Rightarrow>
          (case dict_index (L_vars vt) (k, x + dx, y + dy) of Inl e \<Rightarrow> Inl e | Inr loc_next \<Rightarrow>
           (case dict_index REV_DIRS D of Inl e \<Rightarrow> Inl e | Inr revD \<Rightarrow>
              (let st2 = add_clause [- evid, loc_next] (add_clause [- evid, loc_var] st)
               in (case dict_get (E_vars vt) (k, x + dx, y + dy, revD) of
                     None \<Rightarrow> Inr (add_clause [- evid] st2)
                   | Some rev_evid \<Rightarrow>
                       if rev_evid \<noteq> 0
                       then Inr (add_clause [- rev_evid, evid] (add_clause [- evid, rev_evid] st2))
                       else Inr (add_clause [- evid] st2))))))))"

definition enforce_edge_location_consistency :: "var_tables \<Rightarrow> enc_state \<Rightarrow> py_error + enc_state" where
  "enforce_edge_location_consistency vt st = for_each (edge_location vt) (E_vars vt) st"

definition connectivity_edge :: "var_tables \<Rightarrow> int \<Rightarrow> int \<Rightarrow> int \<Rightarrow> string
    \<Rightarrow> enc_state \<Rightarrow> py_error + enc_state" where
  "connectivity_edge vt k x y D st =
     (case dict_get (E_vars vt) (k, x, y, D) of
        None \<Rightarrow> Inr st
      | Some e_var \<Rightarrow>
          if e_var = 0 then Inr st
          else (case dict_index DIRS D of Inl e \<Rightarrow> Inl e | Inr (dx, dy) \<Rightarrow>
                (case dict_index (S_vars vt) (k, x, y) of Inl e \<Rightarrow> Inl e | Inr s_here \<Rightarrow>
                 (case dict_index (S_vars vt) (k, x + dx, y + dy) of Inl e \<Rightarrow> Inl e | Inr s_next \<Rightarrow>
                    Inr (add_clause [- s_here, - e_var, s_next] st)))))"

definition connectivity_cell :: "var_tables \<Rightarrow> int \<Rightarrow> int \<Rightarrow> int \<Rightarrow> enc_state \<Rightarrow> py_error + enc_state" where
  "connectivity_cell vt k x y st =
     (case dict_index (L_vars vt) (k, x, y) of Inl e \<Rightarrow> Inl e | Inr l_var \<Rightarrow>
      (case dict_index (S_vars vt) (k, x, y) of Inl e \<Rightarrow> Inl e | Inr s_var \<Rightarrow>
         Inr (add_clause [- l_var, s_var] st)))"

definition connectivity_line :: "problem \<Rightarrow> var_tables \<Rightarrow> int \<times> cell \<times> cell
    \<Rightarrow> enc_state \<Rightarrow> py_error + enc_state" where
  "connectivity_line p vt ks st =
     (case ks of (k, start, end) \<Rightarrow>
        (case dict_index (S_vars vt) (k, fst start, snd start) of
           Inl e \<Rightarrow> Inl e
         | Inr s_start \<Rightarrow>
             (case for_each (\<lambda>x. for_each (\<lambda>y. for_each (connectivity_edge vt k x y) DIRS_LIST)
                                   (py_range (M p)))
                     (py_range (N p)) (add_clause [s_start] st) of
                Inl e \<Rightarrow> Inl e
              | Inr st1 \<Rightarrow>
                  for_each (\<lambda>x. for_each (connectivity_cell vt k x) (py_range (M p)))
                    (py_range (N p)) st1)))"

definition enforce_path_connectivity :: "problem \<Rightarrow> var_tables \<Rightarrow> enc_state \<Rightarrow> py_error + enc_state" where
  "enforce_path_connectivity p vt st = for_each (connectivity_line p vt) (py_enumerate (lines_spec p)) st"

definition apply_all_constraints :: "problem \<Rightarrow> var_tables \<Rightarrow> enc_state \<Rightarrow> py_error + enc_state" where
  "apply_all_constraints p vt st =
     (case enforce_edge_location_consistency vt (enforce_unique_occupancy vt st) of
        Inl e \<Rightarrow> Inl e
      | Inr st2 \<Rightarrow>
          (case enforce_path_continuity p vt st2 of
             Inl e \<Rightarrow> Inl e
           | Inr st3 \<Rightarrow>
               (case enforce_turn_constraints p vt st3 of
                  Inl e \<Rightarrow> Inl e
                | Inr st4 \<Rightarrow>
                    (case enforce_path_connectivity p vt st4 of
                       Inl e \<Rightarrow> Inl e
                     | Inr st5 \<Rightarrow> Inr (enforce_popular_cell_constraint p vt st5)))))"

subsection \<open>The two output files\<close>

record encoding =
  num_vars :: int
  num_clauses :: int
  cnf :: "int list list"
  varmap_var_to_id :: "(string, int) dict"
  varmap_id_to_var :: "(string, string) dict"
  varmap_N :: int
  varmap_M :: int
  varmap_K :: int
  varmap_J :: int
  varmap_mode :: int
  varmap_lines :: "(cell \<times> cell) list"
  varmap_popular :: "cell list"

text \<open>The tables and the state when the script reaches its output section.\<close>

definition encode_state :: "problem \<Rightarrow> py_error + var_tables \<times> enc_state" where
  "encode_state p =
     (case define_vars p of
        Inl e \<Rightarrow> Inl e
      | Inr (vt, st) \<Rightarrow>
          (case apply_all_constraints p vt st of Inl e \<Rightarrow> Inl e | Inr st' \<Rightarrow> Inr (vt, st')))"



subsection \<open>Notions used to state the decoder's properties\<close>

definition line_path :: "edge list \<Rightarrow> (cell \<times> cell) list \<Rightarrow> int \<Rightarrow> py_error + string list option" where
  "line_path E_true ls k =
     (case py_index ls k of
        Inl e \<Rightarrow> Inl e
      | Inr ((sx, sy), (ex, ey)) \<Rightarrow> find_path_bfs k sx sy ex ey E_true)"

definition render_path :: "string list \<Rightarrow> string" where
  "render_path path = py_join '' '' (path @ [''0''])"

definition wf_edge :: "edge \<Rightarrow> bool" where
  "wf_edge ed = (case ed of (k, x, y, D) \<Rightarrow> D \<in> set DIRS_LIST)"

definition wf_name :: "string \<Rightarrow> bool" where
  "wf_name name =
     (take 2 name = ''E_'' \<longrightarrow> (case edge_of_name name of Inl e \<Rightarrow> False | Inr ed \<Rightarrow> wf_edge ed))"

definition wf_metadata :: "metadata \<Rightarrow> bool" where
  "wf_metadata meta =
     ((\<forall>name \<in> snd ` set (meta_id_to_var meta). wf_name name)
      \<and> meta_K meta \<le> int (length (meta_lines meta)))"

definition m1 :: metadata where
  "m1 = \<lparr>meta_lines = [((0, 0), (2, 0))], meta_K = 1,
     meta_id_to_var = [(''1'', ''L_0_0_0''), (''2'', ''E_0_0_0_R''), (''3'', ''E_0_1_0_R''),
       (''4'', ''E_0_1_0_L''), (''5'', ''E_0_2_0_L'')]\<rparr>"

definition m2 :: metadata where
  "m2 = \<lparr>meta_lines = [((0, 0), (1, 0)), ((0, 1), (1, 1))], meta_K = 2,
     meta_id_to_var = [(''1'', ''E_0_0_0_R''), (''2'', ''E_0_1_0_L''), (''3'', ''E_1_0_1_R''),
       (''4'', ''E_1_1_1_L''), (''5'', ''L_0_0_0'')]\<rparr>"

subsection \<open>Notions used to state the encoder's properties\<close>


definition digits_nat :: "string \<Rightarrow> nat" where
  "digits_nat s = foldl (\<lambda>a c. 10 * a + (case digit_val c of None \<Rightarrow> 0 | Some d \<Rightarrow> d)) 0 s"

definition var_inv :: "enc_state \<Rightarrow> bool" where
  "var_inv st =
     (1 \<le> next_var st
      \<and> (\<forall>name v. dict_get (var_to_id st) name = Some v \<longrightarrow> 1 \<le> v \<and> v < next_var st)
      \<and> (\<forall>v. 1 \<le> v \<and> v < next_var st \<longrightarrow> (\<exists>name. dict_get (var_to_id st) name = Some v))
      \<and> (\<forall>name v. dict_get (var_to_id st) name = Some v
             \<longleftrightarrow> dict_get (id_to_var st) (str_int v) = Some name)
      \<and> (\<forall>key name. dict_get (id_to_var st) key = Some name
             \<longrightarrow> (\<exists>v. key = str_int v)))"

definition pos_tab :: "('k, int) dict \<Rightarrow> bool" where
  "pos_tab d = (\<forall>k v. dict_get d k = Some v \<longrightarrow> 1 \<le> v)"

definition delta :: "string \<Rightarrow> int \<times> int" where
  "delta D = (case dict_get DIRS D of None \<Rightarrow> (0, 0) | Some d \<Rightarrow> d)"

text \<open>The cells of one line in the order the definition loop visits them.\<close>

definition line_events :: "problem \<Rightarrow> int \<times> cell \<times> cell \<Rightarrow> (int \<times> cell \<times> cell \<times> int \<times> int) list" where
  "line_events p ks =
     (case ks of (k, start, end) \<Rightarrow>
        concat (map (\<lambda>x. map (\<lambda>y. (k, start, end, x, y)) (py_range (M p))) (py_range (N p))))"

definition events :: "problem \<Rightarrow> (int \<times> cell \<times> cell \<times> int \<times> int) list" where
  "events p = concat (map (line_events p) (py_enumerate (lines_spec p)))"

definition cell_step :: "problem \<Rightarrow> int \<times> cell \<times> cell \<times> int \<times> int
    \<Rightarrow> var_tables \<times> enc_state \<Rightarrow> py_error + var_tables \<times> enc_state" where
  "cell_step p ev vs = (case ev of (k, start, end, x, y) \<Rightarrow> define_cell p k start end x y vs)"

definition ev_key :: "int \<times> cell \<times> cell \<times> int \<times> int \<Rightarrow> int \<times> int \<times> int" where
  "ev_key ev = (case ev of (k, start, end, x, y) \<Rightarrow> (k, x, y))"

definition ev_cell :: "int \<times> cell \<times> cell \<times> int \<times> int \<Rightarrow> cell" where
  "ev_cell ev = (case ev of (k, start, end, x, y) \<Rightarrow> (x, y))"

definition ev_inner :: "int \<times> cell \<times> cell \<times> int \<times> int \<Rightarrow> bool" where
  "ev_inner ev = (case ev of (k, start, end, x, y) \<Rightarrow> (x, y) \<noteq> start \<and> (x, y) \<noteq> end)"

definition tables_inv :: "problem \<Rightarrow> (int \<times> cell \<times> cell \<times> int \<times> int) list
    \<Rightarrow> var_tables \<times> enc_state \<Rightarrow> bool" where
  "tables_inv p done vs =
     (case vs of (vt, st) \<Rightarrow>
        var_inv st
        \<and> dom (dict_get (L_vars vt)) = ev_key ` set done
        \<and> dom (dict_get (S_vars vt)) = ev_key ` set done
        \<and> dom (dict_get (T_vars vt)) = ev_key ` {ev \<in> set done. ev_inner ev}
        \<and> dom (dict_get (E_vars vt)) =
            {(k, x, y, D) | k x y D s e. (k, s, e, x, y) \<in> set done \<and> D \<in> set DIRS_LIST
               \<and> in_grid p (x + fst (delta D)) (y + snd (delta D))}
        \<and> pos_tab (L_vars vt) \<and> pos_tab (S_vars vt) \<and> pos_tab (T_vars vt) \<and> pos_tab (E_vars vt)
        \<and> distinct (map fst (T_vars vt))
        \<and> (\<forall>c. dict_get (cells_lines vt) c =
               (if filter (\<lambda>ev. ev_cell ev = c) done = [] then None
                else Some (map (\<lambda>ev. the (dict_get (L_vars vt) (ev_key ev)))
                             (filter (\<lambda>ev. ev_cell ev = c) done)))))"

definition lit_true :: "(int \<Rightarrow> bool) \<Rightarrow> int \<Rightarrow> bool" where
  "lit_true \<sigma> l = (if l > 0 then \<sigma> l else if l < 0 then \<not> \<sigma> (- l) else False)"

definition clause_sat :: "(int \<Rightarrow> bool) \<Rightarrow> int list \<Rightarrow> bool" where
  "clause_sat \<sigma> c = list_ex (lit_true \<sigma>) c"

definition cnf_sat :: "(int \<Rightarrow> bool) \<Rightarrow> int list list \<Rightarrow> bool" where
  "cnf_sat \<sigma> cs = list_all (clause_sat \<sigma>) cs"

definition popular_step :: "var_tables \<Rightarrow> cell \<Rightarrow> enc_state \<Rightarrow> enc_state" where
  "popular_step vt c st =
     (let vids = (case dict_get (cells_lines vt) c of None \<Rightarrow> [] | Some vs \<Rightarrow> vs)
      in if vids \<noteq> [] then add_clause vids st else add_clause [- 1] (add_clause [1] st))"

text \<open>
  The cells that line \<open>k\<close> reaches from \<open>start\<close> by following edge variables
  of line \<open>k\<close> that the assignment makes true.
\<close>

inductive reach :: "(int \<Rightarrow> bool) \<Rightarrow> var_tables \<Rightarrow> int \<Rightarrow> cell \<Rightarrow> cell \<Rightarrow> bool"
  for \<sigma> :: "int \<Rightarrow> bool" and vt :: var_tables and k :: int and start :: cell where
  reach_start: "reach \<sigma> vt k start start"
| reach_step: "reach \<sigma> vt k start (x, y) \<Longrightarrow> dict_get (E_vars vt) (k, x, y, D) = Some e
     \<Longrightarrow> \<sigma> e \<Longrightarrow> dict_get DIRS D = Some (dx, dy) \<Longrightarrow> reach \<sigma> vt k start (x + dx, y + dy)"

subsection \<open>Three concrete problems and what the encoder computes on them\<close>


definition pop_problem :: problem where
  "pop_problem = \<lparr>mode = 2, N = 2, M = 1, K = 1, J = 1, P = 2,
     lines_spec = [((0, 0), (1, 0))], popular = [(1, 0), (5, 5)]\<rparr>"

definition cyc_problem :: problem where
  "cyc_problem = \<lparr>mode = 1, N = 2, M = 3, K = 1, J = 4, P = 0,
     lines_spec = [((0, 0), (1, 0))], popular = []\<rparr>"





definition pop_tables :: var_tables where
  "pop_tables =
     \<lparr>L_vars = [((0, 0, 0), 1), ((0, 1, 0), 4)], E_vars = [((0, 0, 0, ''R''), 3), ((0, 1,
     0, ''L''), 6)], T_vars = [], S_vars = [((0, 0, 0), 2), ((0, 1, 0), 5)], cells_lines = [((0,
     0), [1]), ((1, 0), [4])]\<rparr>"

definition pop_state0 :: enc_state where
  "pop_state0 =
     \<lparr>var_to_id = [(''L_0_0_0'', 1), (''S_0_0_0'', 2), (''E_0_0_0_R'', 3), (''L_0_1_0'',
     4), (''S_0_1_0'', 5), (''E_0_1_0_L'', 6)], id_to_var = [(''1'', ''L_0_0_0''), (''2'',
     ''S_0_0_0''), (''3'', ''E_0_0_0_R''), (''4'', ''L_0_1_0''), (''5'', ''S_0_1_0''), (''6'',
     ''E_0_1_0_L'')], next_var = 7, clauses = []\<rparr>"

definition pop_clauses :: "int list list" where
  "pop_clauses =
     [[- 3, 1], [- 3, 4], [- 3, 6], [- 6, 3], [- 6, 4], [- 6, 1], [- 6, 3], [- 3, 6], [1], [4],
     [- 1, 3], [- 4, 6], [2], [- 2, - 3, 5], [- 5, - 6, 2], [- 1, 2], [- 4, 5], [4], [1], [- 1]]"

definition pop_state :: enc_state where
  "pop_state = pop_state0\<lparr>clauses := pop_clauses\<rparr>"

definition cyc_tables :: var_tables where
  "cyc_tables =
     \<lparr>L_vars = [((0, 0, 0), 1), ((0, 0, 1), 5), ((0, 0, 2), 11), ((0, 1, 0), 16), ((0, 1,
     1), 20), ((0, 1, 2), 26)], E_vars = [((0, 0, 0, ''R''), 3), ((0, 0, 0, ''D''), 4), ((0, 0,
     1, ''R''), 8), ((0, 0, 1, ''U''), 9), ((0, 0, 1, ''D''), 10), ((0, 0, 2, ''R''), 14), ((0,
     0, 2, ''U''), 15), ((0, 1, 0, ''L''), 18), ((0, 1, 0, ''D''), 19), ((0, 1, 1, ''L''), 23),
     ((0, 1, 1, ''U''), 24), ((0, 1, 1, ''D''), 25), ((0, 1, 2, ''L''), 29), ((0, 1, 2, ''U''),
     30)], T_vars = [((0, 0, 1), 6), ((0, 0, 2), 12), ((0, 1, 1), 21), ((0, 1, 2), 27)], S_vars =
     [((0, 0, 0), 2), ((0, 0, 1), 7), ((0, 0, 2), 13), ((0, 1, 0), 17), ((0, 1, 1), 22), ((0, 1,
     2), 28)], cells_lines = [((0, 0), [1]), ((0, 1), [5]), ((0, 2), [11]), ((1, 0), [16]), ((1,
     1), [20]), ((1, 2), [26])]\<rparr>"

definition cyc_state0 :: enc_state where
  "cyc_state0 =
     \<lparr>var_to_id = [(''L_0_0_0'', 1), (''S_0_0_0'', 2), (''E_0_0_0_R'', 3), (''E_0_0_0_D'',
     4), (''L_0_0_1'', 5), (''T_0_0_1'', 6), (''S_0_0_1'', 7), (''E_0_0_1_R'', 8),
     (''E_0_0_1_U'', 9), (''E_0_0_1_D'', 10), (''L_0_0_2'', 11), (''T_0_0_2'', 12), (''S_0_0_2'',
     13), (''E_0_0_2_R'', 14), (''E_0_0_2_U'', 15), (''L_0_1_0'', 16), (''S_0_1_0'', 17),
     (''E_0_1_0_L'', 18), (''E_0_1_0_D'', 19), (''L_0_1_1'', 20), (''T_0_1_1'', 21),
     (''S_0_1_1'', 22), (''E_0_1_1_L'', 23), (''E_0_1_1_U'', 24), (''E_0_1_1_D'', 25),
     (''L_0_1_2'', 26), (''T_0_1_2'', 27), (''S_0_1_2'', 28), (''E_0_1_2_L'', 29),
     (''E_0_1_2_U'', 30)], id_to_var = [(''1'', ''L_0_0_0''), (''2'', ''S_0_0_0''), (''3'',
     ''E_0_0_0_R''), (''4'', ''E_0_0_0_D''), (''5'', ''L_0_0_1''), (''6'', ''T_0_0_1''), (''7'',
     ''S_0_0_1''), (''8'', ''E_0_0_1_R''), (''9'', ''E_0_0_1_U''), (''10'', ''E_0_0_1_D''),
     (''11'', ''L_0_0_2''), (''12'', ''T_0_0_2''), (''13'', ''S_0_0_2''), (''14'',
     ''E_0_0_2_R''), (''15'', ''E_0_0_2_U''), (''16'', ''L_0_1_0''), (''17'', ''S_0_1_0''),
     (''18'', ''E_0_1_0_L''), (''19'', ''E_0_1_0_D''), (''20'', ''L_0_1_1''), (''21'',
     ''T_0_1_1''), (''22'', ''S_0_1_1''), (''23'', ''E_0_1_1_L''), (''24'', ''E_0_1_1_U''),
     (''25'', ''E_0_1_1_D''), (''26'', ''L_0_1_2''), (''27'', ''T_0_1_2''), (''28'',
     ''S_0_1_2''), (''29'', ''E_0_1_2_L''), (''30'', ''E_0_1_2_U'')], next_var = 31, clauses =
     []\<rparr>"

definition cyc_clauses :: "int list list" where
  "cyc_clauses =
     [[- 3, 1], [- 3, 16], [- 3, 18], [- 18, 3], [- 4, 1], [- 4, 5], [- 4, 9], [- 9, 4], [- 8,
     5], [- 8, 20], [- 8, 23], [- 23, 8], [- 9, 5], [- 9, 1], [- 9, 4], [- 4, 9], [- 10, 5], [-
     10, 11], [- 10, 15], [- 15, 10], [- 14, 11], [- 14, 26], [- 14, 29], [- 29, 14], [- 15, 11],
     [- 15, 5], [- 15, 10], [- 10, 15], [- 18, 16], [- 18, 1], [- 18, 3], [- 3, 18], [- 19, 16],
     [- 19, 20], [- 19, 24], [- 24, 19], [- 23, 20], [- 23, 5], [- 23, 8], [- 8, 23], [- 24, 20],
     [- 24, 16], [- 24, 19], [- 19, 24], [- 25, 20], [- 25, 26], [- 25, 30], [- 30, 25], [- 29,
     26], [- 29, 11], [- 29, 14], [- 14, 29], [- 30, 26], [- 30, 20], [- 30, 25], [- 25, 30],
     [1], [16], [- 1, - 3, - 4], [- 1, 3, 4], [- 5, - 8, - 9, - 10], [- 5, 8, 9], [- 5, 8, 10],
     [- 5, 9, 10], [5, - 8], [5, - 9], [5, - 10], [- 11, 14], [- 11, 15], [11, - 14], [11, - 15],
     [- 16, - 18, - 19], [- 16, 18, 19], [- 20, - 23, - 24, - 25], [- 20, 23, 24], [- 20, 23,
     25], [- 20, 24, 25], [20, - 23], [20, - 24], [20, - 25], [- 26, 29], [- 26, 30], [26, - 29],
     [26, - 30], [- 6, 5], [- 5, - 8, - 9, 6], [- 5, - 8, - 10, 6], [- 5, - 9, - 10, - 6], [- 12,
     11], [- 11, - 14, - 15, 12], [- 21, 20], [- 20, - 23, - 24, 21], [- 20, - 23, - 25, 21], [-
     20, - 24, - 25, - 21], [- 27, 26], [- 26, - 29, - 30, 27], [2], [- 2, - 3, 17], [- 2, - 4,
     7], [- 7, - 8, 22], [- 7, - 9, 2], [- 7, - 10, 13], [- 13, - 14, 28], [- 13, - 15, 7], [-
     17, - 18, 2], [- 17, - 19, 22], [- 22, - 23, 7], [- 22, - 24, 17], [- 22, - 25, 28], [- 28,
     - 29, 13], [- 28, - 30, 22], [- 1, 2], [- 5, 7], [- 11, 13], [- 16, 17], [- 20, 22], [- 26,
     28]]"

definition cyc_state :: enc_state where
  "cyc_state = cyc_state0\<lparr>clauses := cyc_clauses\<rparr>"


text \<open>
  An assignment for \<open>cyc_problem\<close>: the path \<open>(0,0) - (1,0)\<close>, and beside it
  the four cells \<open>(0,1), (1,1), (1,2), (0,2)\<close> joined in a ring, every \<open>reach\<close>
  variable true.
\<close>

definition cyc_assignment :: "int \<Rightarrow> bool" where
  "cyc_assignment v = (v \<in> set [1, 16, 3, 18, 5, 20, 11, 26, 8, 10, 23, 25, 14, 15, 29, 30,
     6, 12, 21, 27, 2, 7, 13, 17, 22, 28])"


section \<open>Properties of the decoder\<close>

lemma dict_index_DIRS: "D \<in> set DIRS_LIST \<Longrightarrow> \<exists>d. dict_index DIRS D = Inr d"
  by (auto simp: DIRS_LIST_def DIRS_def dict_index_def)

lemma add_adjacent_ok: "wf_edge ed \<Longrightarrow> \<exists>adj'. add_adjacent k ed adj = Inr adj'"
  by (cases ed) (auto simp: add_adjacent_def wf_edge_def Let_def split: sum.splits dest: dict_index_DIRS)

lemma for_each_ok:
  "(\<And>x s. x \<in> set xs \<Longrightarrow> \<exists>s'. f x s = Inr s') \<Longrightarrow> \<exists>s'. for_each f xs s = Inr s'"
proof (induction xs arbitrary: s)
  case Nil
  then show ?case by simp
next
  case (Cons x xs)
  from Cons.prems [of x s] obtain s1 where s1: "f x s = Inr s1" by auto
  from Cons.IH [of s1] Cons.prems obtain s2 where "for_each f xs s1 = Inr s2" by auto
  with s1 show ?case by simp
qed

lemma build_adjacency_ok:
  "\<forall>ed \<in> set E_true. wf_edge ed \<Longrightarrow> \<exists>adj. build_adjacency_list_for_line k E_true = Inr adj"
  unfolding build_adjacency_list_for_line_def
  by (rule for_each_ok) (simp add: add_adjacent_ok)

lemma find_path_bfs_ok:
  "\<forall>ed \<in> set E_true. wf_edge ed \<Longrightarrow> \<exists>r. find_path_bfs k sx sy ex ey E_true = Inr r"
  using build_adjacency_ok [of E_true k] by (auto simp: find_path_bfs_def)

lemma py_index_ok: "0 \<le> k \<Longrightarrow> k < int (length xs) \<Longrightarrow> py_index xs k = Inr (xs ! nat k)"
  by (simp add: py_index_def)

lemma line_path_ok:
  assumes "\<forall>ed \<in> set E_true. wf_edge ed" "0 \<le> k" "k < int (length ls)"
  shows "\<exists>r. line_path E_true ls k = Inr r"
proof -
  obtain sx sy ex ey where "ls ! nat k = ((sx, sy), (ex, ey))"
    by (metis surj_pair)
  then show ?thesis
    using find_path_bfs_ok [OF assms(1), of k sx sy ex ey] assms(2,3)
    by (auto simp: line_path_def py_index_ok)
qed

lemma decode_loop_line_path:
  "decode_loop E ls (k # ks) out =
     (case line_path E ls k of
        Inl e \<Rightarrow> Inl e
      | Inr None \<Rightarrow> Inr (False, out)
      | Inr (Some path) \<Rightarrow> decode_loop E ls ks (out @ [render_path path]))"
  by (auto simp: line_path_def render_path_def split: sum.splits prod.splits option.splits)

lemma decode_loop_result:
  assumes "\<And>k. k \<in> set ks \<Longrightarrow> \<exists>r. line_path E ls k = Inr r"
  shows "\<exists>found out'. decode_loop E ls ks out = Inr (found, out')
     \<and> (found \<longleftrightarrow> (\<forall>k \<in> set ks. line_path E ls k \<noteq> Inr None))
     \<and> (found \<longrightarrow> (\<exists>paths. map (\<lambda>k. line_path E ls k) ks = map (\<lambda>p. Inr (Some p)) paths
                        \<and> out' = out @ map render_path paths))"
  using assms
proof (induction ks arbitrary: out)
  case Nil
  then show ?case by auto
next
  case (Cons k ks)
  from Cons.prems [of k] obtain r where r: "line_path E ls k = Inr r" by auto
  show ?case
  proof (cases r)
    case None
    with r show ?thesis by (auto simp add: decode_loop_line_path simp del: decode_loop.simps)
  next
    case (Some path)
    from Cons.IH [of "out @ [render_path path]"] Cons.prems
    obtain found out' where
      a: "decode_loop E ls ks (out @ [render_path path]) = Inr (found, out')"
      and b: "found \<longleftrightarrow> (\<forall>k \<in> set ks. line_path E ls k \<noteq> Inr None)"
      and c: "found \<longrightarrow> (\<exists>paths. map (\<lambda>k. line_path E ls k) ks = map (\<lambda>p. Inr (Some p)) paths
                        \<and> out' = out @ [render_path path] @ map render_path paths)"
      by auto
    have "found \<longrightarrow> (\<exists>paths. map (\<lambda>k. line_path E ls k) (k # ks) = map (\<lambda>p. Inr (Some p)) paths
                        \<and> out' = out @ map render_path paths)"
    proof
      assume found
      with c obtain paths where
        "map (\<lambda>k. line_path E ls k) ks = map (\<lambda>p. Inr (Some p)) paths"
        "out' = out @ [render_path path] @ map render_path paths" by auto
      then have "map (\<lambda>k. line_path E ls k) (k # ks) = map (\<lambda>p. Inr (Some p)) (path # paths)
          \<and> out' = out @ map render_path (path # paths)"
        using r Some by simp
      then show "\<exists>paths. map (\<lambda>k. line_path E ls k) (k # ks) = map (\<lambda>p. Inr (Some p)) paths
                        \<and> out' = out @ map render_path paths" by blast
    qed
    with a b r Some show ?thesis by (auto simp add: decode_loop_line_path simp del: decode_loop.simps)
  qed
qed


lemma for_each_inv:
  assumes "Inv s" and "\<And>x s. x \<in> set xs \<Longrightarrow> Inv s \<Longrightarrow> \<exists>s'. f x s = Inr s' \<and> Inv s'"
  shows "\<exists>s'. for_each f xs s = Inr s' \<and> Inv s'"
  using assms
proof (induction xs arbitrary: s)
  case Nil
  then show ?case by simp
next
  case (Cons x xs)
  from Cons.prems(2) [of x s] Cons.prems(1) obtain s1 where s1: "f x s = Inr s1" "Inv s1" by auto
  from Cons.IH [of s1] s1(2) Cons.prems(2) obtain s2 where "for_each f xs s1 = Inr s2" "Inv s2"
    by auto
  with s1 show ?case by simp
qed

lemma add_true_edge_ok:
  assumes "\<forall>name \<in> snd ` set names. wf_name name" and "\<forall>ed \<in> set E. wf_edge ed"
  shows "\<exists>E'. add_true_edge names vid E = Inr E' \<and> (\<forall>ed \<in> set E'. wf_edge ed)"
proof (cases "dict_get names vid")
  case None
  with assms(2) show ?thesis by (simp add: add_true_edge_def)
next
  case (Some name)
  then have "(vid, name) \<in> set names" by (simp add: dict_get_def map_of_SomeD)
  then have "name \<in> snd ` set names" by force
  with assms(1) have wf: "wf_name name" by blast
  show ?thesis
  proof (cases "take 2 name = ''E_''")
    case True
    with wf obtain ed where "edge_of_name name = Inr ed" "wf_edge ed"
      by (auto simp: wf_name_def split: sum.splits)
    with Some True assms(2) show ?thesis by (auto simp: add_true_edge_def)
  next
    case False
    with Some assms(2) show ?thesis by (simp add: add_true_edge_def)
  qed
qed

lemma collect_true_edges_ok:
  assumes "\<forall>name \<in> snd ` set names. wf_name name"
  shows "\<exists>E. collect_true_edges names ids = Inr E \<and> (\<forall>ed \<in> set E. wf_edge ed)"
  unfolding collect_true_edges_def
  by (rule for_each_inv [where Inv = "\<lambda>E. \<forall>ed \<in> set E. wf_edge ed"])
     (simp_all add: add_true_edge_ok [OF assms])

lemma length_py_range: "length (py_range n) = nat n"
  by (simp add: py_range_def)

lemma set_py_range: "set (py_range n) = {k. 0 \<le> k \<and> k < n}"
  by (auto simp: py_range_def)

lemma nth_py_range: "i < nat n \<Longrightarrow> py_range n ! i = int i"
  by (simp add: py_range_def)

lemma decode_loop_range:
  assumes "\<forall>ed \<in> set E. wf_edge ed" and "n \<le> int (length ls)"
  shows "\<exists>found out. decode_loop E ls (py_range n) [] = Inr (found, out)
     \<and> (found \<longleftrightarrow> (\<forall>k \<in> set (py_range n). line_path E ls k \<noteq> Inr None))
     \<and> (found \<longrightarrow> (\<exists>paths. length paths = nat n
            \<and> (\<forall>i < nat n. line_path E ls (int i) = Inr (Some (paths ! i)))
            \<and> out = map render_path paths))"
proof -
  have ok: "\<And>k. k \<in> set (py_range n) \<Longrightarrow> \<exists>r. line_path E ls k = Inr r"
    using assms by (intro line_path_ok) (auto simp: set_py_range)
  from decode_loop_result [of "py_range n" E ls "[]", OF ok]
  obtain found out where
    a: "decode_loop E ls (py_range n) [] = Inr (found, out)"
    and b: "found \<longleftrightarrow> (\<forall>k \<in> set (py_range n). line_path E ls k \<noteq> Inr None)"
    and c: "found \<longrightarrow> (\<exists>paths. map (\<lambda>k. line_path E ls k) (py_range n) = map (\<lambda>p. Inr (Some p)) paths
                        \<and> out = [] @ map render_path paths)"
    by blast
  have "found \<longrightarrow> (\<exists>paths. length paths = nat n
            \<and> (\<forall>i < nat n. line_path E ls (int i) = Inr (Some (paths ! i)))
            \<and> out = map render_path paths)"
  proof
    assume found
    with c obtain paths where
      m: "map (\<lambda>k. line_path E ls k) (py_range n) = map (\<lambda>p. Inr (Some p)) paths"
      and o: "out = map render_path paths" by auto
    from m have len: "length paths = nat n"
      by (metis length_map length_py_range)
    have "\<forall>i < nat n. line_path E ls (int i) = Inr (Some (paths ! i))"
    proof (intro allI impI)
      fix i assume i: "i < nat n"
      have "map (\<lambda>k. line_path E ls k) (py_range n) ! i = line_path E ls (py_range n ! i)"
        using i by (simp add: length_py_range)
      moreover have "map (\<lambda>p. Inr (Some p)) paths ! i = (Inr (Some (paths ! i)) :: py_error + string list option)"
        using i len by simp
      ultimately show "line_path E ls (int i) = Inr (Some (paths ! i))"
        using m i by (simp add: nth_py_range)
    qed
    with len o show "\<exists>paths. length paths = nat n
            \<and> (\<forall>i < nat n. line_path E ls (int i) = Inr (Some (paths ! i)))
            \<and> out = map render_path paths" by blast
  qed
  with a b show ?thesis by blast
qed

text \<open>
  Claim C10. The decoder's output is all or nothing. On every non-empty solver output
  read with a well-formed variable map the decoder returns. When the first line is
  UNSAT it writes the single line \<open>0\<close>. Otherwise, when the search of any one line
  \<open>k\<close> in \<open>range(K)\<close> finds no path, it writes the single line \<open>0\<close> and
  nothing else, whatever paths earlier lines had; and when no line fails it writes
  exactly \<open>K\<close> lines, the \<open>i\<close>-th being the rendered path of line \<open>i\<close>.
\<close>

theorem decode_all_or_nothing:
  assumes "wf_metadata meta" and "satlines \<noteq> []" and "\<forall>xs. set (iter xs) \<subseteq> set xs"
  shows "\<exists>res. decode iter meta satlines = Inr res
     \<and> (if py_upper (hd satlines) = ''UNSAT'' then written res = [''0'']
        else \<exists>E. collect_true_edges (meta_id_to_var meta) (true_vars_ids satlines) = Inr E
           \<and> (if \<exists>k \<in> set (py_range (meta_K meta)).
                    line_path (iter E) (meta_lines meta) k = Inr None
              then written res = [''0'']
              else \<exists>paths. length paths = nat (meta_K meta)
                     \<and> (\<forall>i < nat (meta_K meta).
                           line_path (iter E) (meta_lines meta) (int i) = Inr (Some (paths ! i)))
                     \<and> written res = map render_path paths))"
proof -
  from assms(2) obtain first rest where sl: "satlines = first # rest" by (cases satlines) auto
  show ?thesis
  proof (cases "py_upper first = ''UNSAT''")
    case True
    with sl show ?thesis by (simp add: decode_def)
  next
    case False
    from assms(1) have names: "\<forall>name \<in> snd ` set (meta_id_to_var meta). wf_name name"
      and Kle: "meta_K meta \<le> int (length (meta_lines meta))"
      by (simp_all add: wf_metadata_def)
    from collect_true_edges_ok [OF names] obtain E where
      E: "collect_true_edges (meta_id_to_var meta) (true_vars_ids satlines) = Inr E"
      and wfE: "\<forall>ed \<in> set E. wf_edge ed" by blast
    from wfE assms(3) have wfI: "\<forall>ed \<in> set (iter E). wf_edge ed" by blast
    from decode_loop_range [OF wfI Kle] obtain found out where
      a: "decode_loop (iter E) (meta_lines meta) (py_range (meta_K meta)) [] = Inr (found, out)"
      and b: "found \<longleftrightarrow> (\<forall>k \<in> set (py_range (meta_K meta)).
                  line_path (iter E) (meta_lines meta) k \<noteq> Inr None)"
      and c: "found \<longrightarrow> (\<exists>paths. length paths = nat (meta_K meta)
            \<and> (\<forall>i < nat (meta_K meta).
                  line_path (iter E) (meta_lines meta) (int i) = Inr (Some (paths ! i)))
            \<and> out = map render_path paths)"
      by blast
    show ?thesis
    proof (cases found)
      case True
      with a E sl False have d: "decode iter meta satlines = Inr \<lparr>written = out, exit_status = 0\<rparr>"
        by (simp add: decode_def)
      from True c obtain paths where p: "length paths = nat (meta_K meta)"
          "\<forall>i < nat (meta_K meta).
              line_path (iter E) (meta_lines meta) (int i) = Inr (Some (paths ! i))"
          "out = map render_path paths" by blast
      from True b have nofail: "\<not> (\<exists>k \<in> set (py_range (meta_K meta)).
          line_path (iter E) (meta_lines meta) k = Inr None)" by simp
      have "\<exists>paths. length paths = nat (meta_K meta)
                     \<and> (\<forall>i < nat (meta_K meta).
                           line_path (iter E) (meta_lines meta) (int i) = Inr (Some (paths ! i)))
                     \<and> written \<lparr>written = out, exit_status = 0\<rparr> = map render_path paths"
        using p by auto
      with d E nofail False sl show ?thesis by simp
    next
      case nf: False
      with a E sl False
      have d: "decode iter meta satlines = Inr \<lparr>written = [''0''], exit_status = 0\<rparr>"
        by (simp add: decode_def)
      from nf b have fail: "\<exists>k \<in> set (py_range (meta_K meta)).
          line_path (iter E) (meta_lines meta) k = Inr None" by simp
      with d E False sl show ?thesis by simp
    qed
  qed
qed

lemma wf_m2: "wf_metadata m2"
  by code_simp

lemma m2_partial:
  "py_upper (hd [''SAT'', ''1 2 -3 -4 5 0'']) \<noteq> ''UNSAT''
   \<and> collect_true_edges (meta_id_to_var m2) (true_vars_ids [''SAT'', ''1 2 -3 -4 5 0''])
       = Inr [(0, 1, 0, ''L''), (0, 0, 0, ''R'')]
   \<and> line_path (rev [(0, 1, 0, ''L''), (0, 0, 0, ''R'')]) (meta_lines m2) 0 = Inr (Some [''R''])
   \<and> line_path (rev [(0, 1, 0, ''L''), (0, 0, 0, ''R'')]) (meta_lines m2) 1 = Inr None
   \<and> (1::int) \<in> set (py_range (meta_K m2))"
  by code_simp

lemma m2_full:
  "decode rev m2 [''SAT'', ''1 2 3 4 5 0'']
     = Inr \<lparr>written = [''R 0'', ''R 0''], exit_status = 0\<rparr>"
  by code_simp

theorem decode_all_or_nothing_witness:
  "wf_metadata m2 \<and> [''SAT'', ''1 2 -3 -4 5 0''] \<noteq> []
   \<and> (\<forall>xs :: edge list. set (rev xs) \<subseteq> set xs)
   \<and> line_path (rev [(0, 1, 0, ''L''), (0, 0, 0, ''R'')]) (meta_lines m2) 0 = Inr (Some [''R''])
   \<and> line_path (rev [(0, 1, 0, ''L''), (0, 0, 0, ''R'')]) (meta_lines m2) 1 = Inr None
   \<and> (\<exists>res. decode rev m2 [''SAT'', ''1 2 -3 -4 5 0''] = Inr res \<and> written res = [''0''])
   \<and> decode rev m2 [''SAT'', ''1 2 3 4 5 0'']
       = Inr \<lparr>written = [''R 0'', ''R 0''], exit_status = 0\<rparr>"
proof -
  have h2: "[''SAT'', ''1 2 -3 -4 5 0''] \<noteq> []" by simp
  have h3: "\<forall>xs :: edge list. set (rev xs) \<subseteq> set xs" by simp
  from decode_all_or_nothing [OF wf_m2 h2 h3] obtain res where
    r: "decode rev m2 [''SAT'', ''1 2 -3 -4 5 0''] = Inr res"
    and c: "if py_upper (hd [''SAT'', ''1 2 -3 -4 5 0'']) = ''UNSAT'' then written res = [''0'']
        else \<exists>E. collect_true_edges (meta_id_to_var m2) (true_vars_ids [''SAT'', ''1 2 -3 -4 5 0'']) = Inr E
           \<and> (if \<exists>k \<in> set (py_range (meta_K m2)).
                    line_path (rev E) (meta_lines m2) k = Inr None
              then written res = [''0'']
              else \<exists>paths. length paths = nat (meta_K m2)
                     \<and> (\<forall>i < nat (meta_K m2).
                           line_path (rev E) (meta_lines m2) (int i) = Inr (Some (paths ! i)))
                     \<and> written res = map render_path paths)"
    by blast
  note f = m2_partial
  from f have nu: "py_upper (hd [''SAT'', ''1 2 -3 -4 5 0'']) \<noteq> ''UNSAT''" by blast
  from f have ce: "collect_true_edges (meta_id_to_var m2) (true_vars_ids [''SAT'', ''1 2 -3 -4 5 0''])
       = Inr [(0, 1, 0, ''L''), (0, 0, 0, ''R'')]" by blast
  from f have l0: "line_path (rev [(0, 1, 0, ''L''), (0, 0, 0, ''R'')]) (meta_lines m2) 0
      = Inr (Some [''R''])" by blast
  from f have l1: "line_path (rev [(0, 1, 0, ''L''), (0, 0, 0, ''R'')]) (meta_lines m2) 1 = Inr None"
    by blast
  from f have k1: "(1::int) \<in> set (py_range (meta_K m2))" by blast
  from c nu obtain E where
    e1: "collect_true_edges (meta_id_to_var m2) (true_vars_ids [''SAT'', ''1 2 -3 -4 5 0'']) = Inr E"
    and e2: "if \<exists>k \<in> set (py_range (meta_K m2)). line_path (rev E) (meta_lines m2) k = Inr None
              then written res = [''0'']
              else \<exists>paths. length paths = nat (meta_K m2)
                     \<and> (\<forall>i < nat (meta_K m2).
                           line_path (rev E) (meta_lines m2) (int i) = Inr (Some (paths ! i)))
                     \<and> written res = map render_path paths"
    by (simp only: if_False) blast
  from e1 ce have E: "E = [(0, 1, 0, ''L''), (0, 0, 0, ''R'')]" by simp
  have "\<exists>k \<in> set (py_range (meta_K m2)). line_path (rev E) (meta_lines m2) k = Inr None"
    unfolding E using k1 l1 by blast
  with e2 have "written res = [''0'']" by (simp only: if_True)
  with r have "\<exists>res. decode rev m2 [''SAT'', ''1 2 -3 -4 5 0''] = Inr res \<and> written res = [''0'']"
    by blast
  with wf_m2 h2 h3 l0 l1 m2_full show ?thesis by blast
qed

lemma wf_m1: "wf_metadata m1"
  by code_simp

text \<open>
  Claim C3, as the code has it. When the solver did not answer UNSAT and some line has
  no path over the true edge variables, the decoder writes the single line \<open>0\<close>
  and ends with status 0: exactly what it writes and returns on UNSAT. The result does
  not tell the two outcomes apart.
\<close>

theorem decode_inconsistency_same_as_unsat:
  assumes "wf_metadata meta" and "\<forall>xs. set (iter xs) \<subseteq> set xs"
    and "py_upper first \<noteq> ''UNSAT''"
    and "collect_true_edges (meta_id_to_var meta) (true_vars_ids (first # rest)) = Inr E"
    and "k \<in> set (py_range (meta_K meta))"
    and "line_path (iter E) (meta_lines meta) k = Inr None"
  shows "decode iter meta (first # rest) = Inr \<lparr>written = [''0''], exit_status = 0\<rparr>
     \<and> decode iter meta [''UNSAT''] = Inr \<lparr>written = [''0''], exit_status = 0\<rparr>"
proof -
  from assms(1) have names: "\<forall>name \<in> snd ` set (meta_id_to_var meta). wf_name name"
    and Kle: "meta_K meta \<le> int (length (meta_lines meta))"
    by (simp_all add: wf_metadata_def)
  from collect_true_edges_ok [OF names, of "true_vars_ids (first # rest)"] assms(4)
  have wfE: "\<forall>ed \<in> set E. wf_edge ed" by simp
  with assms(2) have wfI: "\<forall>ed \<in> set (iter E). wf_edge ed" by blast
  from decode_loop_range [OF wfI Kle] obtain found out where
    a: "decode_loop (iter E) (meta_lines meta) (py_range (meta_K meta)) [] = Inr (found, out)"
    and b: "found \<longleftrightarrow> (\<forall>k \<in> set (py_range (meta_K meta)).
                line_path (iter E) (meta_lines meta) k \<noteq> Inr None)"
    by blast
  from b assms(5,6) have "\<not> found" by blast
  with a assms(3,4) have "decode iter meta (first # rest) = Inr \<lparr>written = [''0''], exit_status = 0\<rparr>"
    by (simp add: decode_def)
  moreover have "py_upper ''UNSAT'' = ''UNSAT''" by code_simp
  then have "decode iter meta [''UNSAT''] = Inr \<lparr>written = [''0''], exit_status = 0\<rparr>"
    by (simp add: decode_def)
  ultimately show ?thesis by simp
qed

lemma m1_no_path:
  "py_upper ''SAT'' \<noteq> ''UNSAT''
   \<and> collect_true_edges (meta_id_to_var m1) (true_vars_ids [''SAT'', ''1 2 0'']) = Inr [(0, 0, 0, ''R'')]
   \<and> line_path (id [(0, 0, 0, ''R'')]) (meta_lines m1) 0 = Inr None
   \<and> (0::int) \<in> set (py_range (meta_K m1))"
  by code_simp

theorem decode_inconsistency_same_as_unsat_witness:
  "wf_metadata m1 \<and> (\<forall>xs :: edge list. set (id xs) \<subseteq> set xs)
   \<and> py_upper ''SAT'' \<noteq> ''UNSAT''
   \<and> collect_true_edges (meta_id_to_var m1) (true_vars_ids [''SAT'', ''1 2 0'']) = Inr [(0, 0, 0, ''R'')]
   \<and> (0::int) \<in> set (py_range (meta_K m1))
   \<and> line_path (id [(0, 0, 0, ''R'')]) (meta_lines m1) 0 = Inr None
   \<and> decode id m1 [''SAT'', ''1 2 0''] = Inr \<lparr>written = [''0''], exit_status = 0\<rparr>
   \<and> decode id m1 [''UNSAT''] = Inr \<lparr>written = [''0''], exit_status = 0\<rparr>"
proof -
  have h2: "\<forall>xs :: edge list. set (id xs) \<subseteq> set xs" by simp
  from m1_no_path have h3: "py_upper ''SAT'' \<noteq> ''UNSAT''"
    and h4: "collect_true_edges (meta_id_to_var m1) (true_vars_ids (''SAT'' # [''1 2 0''])) = Inr [(0, 0, 0, ''R'')]"
    and h6: "line_path (id [(0, 0, 0, ''R'')]) (meta_lines m1) 0 = Inr None"
    and h5: "(0::int) \<in> set (py_range (meta_K m1))"
    by simp_all
  from decode_inconsistency_same_as_unsat [OF wf_m1 h2 h3 h4 h5 h6] wf_m1 h2 h3 h4 h5 h6
  show ?thesis unfolding append_Cons append_Nil by blast
qed

text \<open>
  Claim C3 as stated fails: with the map \<open>m1\<close> and the solver output
  \<open>SAT / 1 2 0\<close> the only true edge is \<open>E_0_0_0_R\<close>, line 0 has no path from
  \<open>(0,0)\<close> to \<open>(2,0)\<close>, and the decoder's result is equal to its result on
  \<open>UNSAT\<close>.
\<close>

theorem decode_inconsistency_not_distinct:
  "line_path (id [(0, 0, 0, ''R'')]) (meta_lines m1) 0 = Inr None
   \<and> collect_true_edges (meta_id_to_var m1) (true_vars_ids [''SAT'', ''1 2 0'']) = Inr [(0, 0, 0, ''R'')]
   \<and> decode id m1 [''SAT'', ''1 2 0''] = decode id m1 [''UNSAT'']"
  by code_simp

section \<open>Properties of the encoder\<close>

subsection \<open>What every step built from \<open>add_clause\<close> and \<open>new_var\<close> preserves\<close>



lemma fold_pres:
  assumes "Q s" and "\<And>x s. x \<in> set xs \<Longrightarrow> Q s \<Longrightarrow> Q (f x s)"
  shows "Q (fold f xs s)"
  using assms by (induction xs arbitrary: s) auto





























subsection \<open>The variable map\<close>

lemma digit_val_digit_char: "d < 10 \<Longrightarrow> digit_val (digit_char d) = Some d"
proof -
  assume "d < 10"
  then have "d = 0 \<or> d = 1 \<or> d = 2 \<or> d = 3 \<or> d = 4 \<or> d = 5 \<or> d = 6
    \<or> d = 7 \<or> d = 8 \<or> d = 9" by arith
  then show ?thesis
    by (elim disjE) (simp_all add: digit_val_def digit_char_def upt_rec)
qed

lemma digit_char_not_minus: "digit_char d \<noteq> CHR ''-''"
  by (simp add: digit_char_def)

lemma digits_nat_snoc:
  "digits_nat (s @ [c]) = 10 * digits_nat s + (case digit_val c of None \<Rightarrow> 0 | Some d \<Rightarrow> d)"
  by (simp add: digits_nat_def)

lemma digits_nat_str_nat: "digits_nat (str_nat n) = n"
proof (induction n rule: str_nat.induct)
  case (1 n)
  show ?case
  proof (cases "n < 10")
    case True
    then show ?thesis
      by (subst str_nat.simps) (simp add: digits_nat_def digit_val_digit_char)
  next
    case False
    then have "str_nat n = str_nat (n div 10) @ [digit_char (n mod 10)]"
      by (subst str_nat.simps) simp
    then show ?thesis
      using 1 False by (simp add: digits_nat_snoc digit_val_digit_char)
  qed
qed

lemma str_nat_inj: "str_nat a = str_nat b \<Longrightarrow> a = b"
  by (metis digits_nat_str_nat)

lemma str_nat_hd: "\<exists>d cs. str_nat n = digit_char d # cs"
proof (induction n rule: str_nat.induct)
  case (1 n)
  show ?case
  proof (cases "n < 10")
    case True
    then have "str_nat n = digit_char n # []" by (subst str_nat.simps) simp
    then show ?thesis by blast
  next
    case False
    then have e: "str_nat n = str_nat (n div 10) @ [digit_char (n mod 10)]"
      by (subst str_nat.simps) simp
    from 1 False obtain d cs where "str_nat (n div 10) = digit_char d # cs" by auto
    with e have "str_nat n = digit_char d # (cs @ [digit_char (n mod 10)])" by simp
    then show ?thesis by blast
  qed
qed

lemma str_int_inj: "str_int a = str_int b \<Longrightarrow> a = b"
proof -
  assume e: "str_int a = str_int b"
  obtain d1 c1 where h1: "str_nat (nat a) = digit_char d1 # c1" using str_nat_hd by blast
  obtain d2 c2 where h2: "str_nat (nat b) = digit_char d2 # c2" using str_nat_hd by blast
  show "a = b"
  proof (cases "a < 0")
    case True
    show ?thesis
    proof (cases "b < 0")
      case True
      with \<open>a < 0\<close> e have "str_nat (nat (- a)) = str_nat (nat (- b))" by (simp add: str_int_def)
      then have "nat (- a) = nat (- b)" by (rule str_nat_inj)
      with True \<open>a < 0\<close> show ?thesis by simp
    next
      case False
      with \<open>a < 0\<close> e h2 show ?thesis using digit_char_not_minus [of d2] by (simp add: str_int_def)
    qed
  next
    case False
    show ?thesis
    proof (cases "b < 0")
      case True
      with False e h1 show ?thesis using digit_char_not_minus [of d1] by (simp add: str_int_def)
    next
      case nb: False
      with False e have "str_nat (nat a) = str_nat (nat b)" by (simp add: str_int_def)
      then have "nat a = nat b" by (rule str_nat_inj)
      with False nb show ?thesis by simp
    qed
  qed
qed

lemma dict_get_set: "dict_get (dict_set d k v) k' = (if k' = k then Some v else dict_get d k')"
  by (simp add: dict_get_def dict_set_def update_conv')

lemma var_inv_init: "var_inv init_state"
  by (simp add: var_inv_def init_state_def dict_get_def)

lemma add_clause_fields:
  "var_to_id (add_clause c st) = var_to_id st"
  "id_to_var (add_clause c st) = id_to_var st"
  "next_var (add_clause c st) = next_var st"
  "clauses (add_clause c st) = clauses st @ [c]"
  by (simp_all add: add_clause_def)



lemma var_inv_new_var:
  assumes "var_inv st"
  shows "var_inv (snd (new_var name st))"
proof (cases "dict_get (var_to_id st) name")
  case (Some v)
  with assms show ?thesis by (simp add: new_var_def)
next
  case None
  define vid where "vid = next_var st"
  define st' where "st' = st\<lparr>next_var := vid + 1,
      var_to_id := dict_set (var_to_id st) name vid,
      id_to_var := dict_set (id_to_var st) (str_int vid) name\<rparr>"
  from None have e: "snd (new_var name st) = st'"
    by (simp add: new_var_def st'_def vid_def Let_def)
  from assms have a1: "1 \<le> vid"
    and a2: "\<And>n v. dict_get (var_to_id st) n = Some v \<Longrightarrow> 1 \<le> v \<and> v < vid"
    and a3: "\<And>v. 1 \<le> v \<Longrightarrow> v < vid \<Longrightarrow> \<exists>n. dict_get (var_to_id st) n = Some v"
    and a4: "\<And>n v. dict_get (var_to_id st) n = Some v
             \<longleftrightarrow> dict_get (id_to_var st) (str_int v) = Some n"
    and a5: "\<And>key n. dict_get (id_to_var st) key = Some n \<Longrightarrow> \<exists>v. key = str_int v"
    unfolding var_inv_def vid_def by blast+
  have fresh: "dict_get (id_to_var st) (str_int vid) = None"
  proof (cases "dict_get (id_to_var st) (str_int vid)")
    case (Some n)
    with a4 have "dict_get (var_to_id st) n = Some vid" by simp
    with a2 show ?thesis by fastforce
  qed simp
  have b1: "1 \<le> next_var st'" using a1 by (simp add: st'_def)
  have b2: "\<forall>n v. dict_get (var_to_id st') n = Some v \<longrightarrow> 1 \<le> v \<and> v < next_var st'"
    using a1 a2 by (fastforce simp: st'_def dict_get_set split: if_splits)
  have b3: "\<forall>v. 1 \<le> v \<and> v < next_var st' \<longrightarrow> (\<exists>n. dict_get (var_to_id st') n = Some v)"
  proof (intro allI impI)
    fix v assume v: "1 \<le> v \<and> v < next_var st'"
    show "\<exists>n. dict_get (var_to_id st') n = Some v"
    proof (cases "v = vid")
      case True
      then show ?thesis by (auto simp: st'_def dict_get_set)
    next
      case False
      with v have "v < vid" by (simp add: st'_def)
      with v a3 obtain n where n: "dict_get (var_to_id st) n = Some v" by blast
      with None have "n \<noteq> name" by auto
      with n show ?thesis by (auto simp: st'_def dict_get_set)
    qed
  qed
  have b4: "\<forall>n v. dict_get (var_to_id st') n = Some v
             \<longleftrightarrow> dict_get (id_to_var st') (str_int v) = Some n"
  proof (intro allI)
    fix n v
    show "dict_get (var_to_id st') n = Some v
             \<longleftrightarrow> dict_get (id_to_var st') (str_int v) = Some n"
    proof (cases "v = vid")
      case True
      have "dict_get (var_to_id st) n \<noteq> Some vid" using a2 by fastforce
      with True show ?thesis by (auto simp: st'_def dict_get_set)
    next
      case False
      then have ne: "str_int v \<noteq> str_int vid" using str_int_inj by blast
      have "dict_get (var_to_id st) name \<noteq> Some v" using None by simp
      with ne a4 [of n v] show ?thesis by (auto simp: st'_def dict_get_set)
    qed
  qed
  have b5: "\<forall>key n. dict_get (id_to_var st') key = Some n \<longrightarrow> (\<exists>v. key = str_int v)"
    using a5 by (auto simp: st'_def dict_get_set split: if_splits)
  from b1 b2 b3 b4 b5 have "var_inv st'" unfolding var_inv_def by blast
  with e show ?thesis by simp
qed





lemma for_each_append:
  "for_each f (xs @ ys) s = (case for_each f xs s of Inl e \<Rightarrow> Inl e | Inr s' \<Rightarrow> for_each f ys s')"
  by (induction xs arbitrary: s) (auto split: sum.splits)

lemma for_each_concat_map:
  "for_each f (concat (map g xs)) s = for_each (\<lambda>x. for_each f (g x)) xs s"
  by (induction xs arbitrary: s) (auto simp: for_each_append split: sum.splits)

lemma for_each_map: "for_each f (map g xs) s = for_each (\<lambda>x. f (g x)) xs s"
  by (induction xs arbitrary: s) (auto split: sum.splits)

lemma for_each_map_fun: "for_each f (map g xs) = for_each (\<lambda>x. f (g x)) xs"
  by (rule ext) (rule for_each_map)

lemma for_each_concat_map_fun:
  "for_each f (concat (map g xs)) = for_each (\<lambda>x. for_each f (g x)) xs"
  by (rule ext) (rule for_each_concat_map)

lemma cell_step_tuple: "cell_step p (k, start, end, x, y) = define_cell p k start end x y"
  by (rule ext) (simp add: cell_step_def)

lemma define_line_events: "define_line p ks vs = for_each (cell_step p) (line_events p ks) vs"
proof -
  obtain k start "end" where ks: "ks = (k, start, end)" by (cases ks) auto
  show ?thesis
    unfolding ks define_line_def line_events_def
    by (simp add: for_each_concat_map_fun for_each_map_fun cell_step_tuple)
qed

lemma define_vars_events:
  "define_vars p = for_each (cell_step p) (events p) (init_tables, init_state)"
  unfolding define_vars_def events_def
  by (simp add: for_each_concat_map_fun define_line_events [abs_def])

lemma for_each_prefix_aux:
  assumes "for_each f xs s = Inr s'" and "Inv pre s" and "distinct (map g (pre @ xs))"
    and "\<And>pre x t t'. Inv pre t \<Longrightarrow> f x t = Inr t' \<Longrightarrow> g x \<notin> g ` set pre \<Longrightarrow> Inv (pre @ [x]) t'"
  shows "Inv (pre @ xs) s'"
  using assms(1,2,3)
proof (induction xs arbitrary: pre s)
  case Nil
  then show ?case by simp
next
  case (Cons x xs)
  from Cons.prems(1) obtain s1 where s1: "f x s = Inr s1" and r: "for_each f xs s1 = Inr s'"
    by (auto split: sum.splits)
  from Cons.prems(3) have fresh: "g x \<notin> g ` set pre" by auto
  have i1: "Inv (pre @ [x]) s1" by (rule assms(4) [OF Cons.prems(2) s1 fresh])
  from Cons.prems(3) have d: "distinct (map g ((pre @ [x]) @ xs))" by simp
  from Cons.IH [OF r i1 d] show ?case by simp
qed

lemma for_each_prefix:
  assumes "for_each f xs s = Inr s'" and "Inv [] s" and "distinct (map g xs)"
    and "\<And>pre x t t'. Inv pre t \<Longrightarrow> f x t = Inr t' \<Longrightarrow> g x \<notin> g ` set pre \<Longrightarrow> Inv (pre @ [x]) t'"
  shows "Inv xs s'"
  using for_each_prefix_aux [of f xs s s' Inv "[]" g] assms by simp

lemma dict_set_keys_distinct: "distinct (map fst d) \<Longrightarrow> distinct (map fst (dict_set d k v))"
  by (simp add: dict_set_def distinct_update)

lemma dict_get_mem: "distinct (map fst d) \<Longrightarrow> (k, v) \<in> set d \<longleftrightarrow> dict_get d k = Some v"
  by (simp add: dict_get_def)

lemma pos_tab_set: "pos_tab d \<Longrightarrow> 1 \<le> v \<Longrightarrow> pos_tab (dict_set d k v)"
  by (simp add: pos_tab_def dict_get_set)

lemma new_var_pos:
  assumes "var_inv st" "new_var name st = (v, st')"
  shows "1 \<le> v \<and> var_inv st'"
proof -
  from var_inv_new_var [OF assms(1), of name] assms(2) have i: "var_inv st'" by simp
  have "1 \<le> v"
  proof (cases "dict_get (var_to_id st) name")
    case None
    with assms show ?thesis by (auto simp: new_var_def Let_def var_inv_def)
  next
    case (Some w)
    with assms(2) have "v = w" by (simp add: new_var_def)
    with Some assms(1) show ?thesis unfolding var_inv_def by blast
  qed
  with i show ?thesis by simp
qed

lemma dom_dict_set: "dom (dict_get (dict_set d k v)) = insert k (dom (dict_get d))"
  by (auto simp: dict_get_set dom_def)

lemma dict_index_DIRS_delta: "D \<in> set DIRS_LIST \<Longrightarrow> dict_index DIRS D = Inr (delta D)"
  by (auto simp: DIRS_LIST_def DIRS_def dict_index_def delta_def dict_get_def)

lemma define_edge_effect:
  assumes "D \<in> set DIRS_LIST" "var_inv st" "pos_tab (E_vars vt)"
  shows "\<exists>vt' st'. define_edge p k x y D (vt, st) = Inr (vt', st') \<and> var_inv st'
     \<and> L_vars vt' = L_vars vt \<and> T_vars vt' = T_vars vt \<and> S_vars vt' = S_vars vt
     \<and> cells_lines vt' = cells_lines vt \<and> pos_tab (E_vars vt')
     \<and> dom (dict_get (E_vars vt')) = dom (dict_get (E_vars vt))
          \<union> (if in_grid p (x + fst (delta D)) (y + snd (delta D)) then {(k, x, y, D)} else {})"
proof -
  obtain dx dy where dd: "delta D = (dx, dy)" by (cases "delta D")
  from assms(1) dd have di: "dict_index DIRS D = Inr (dx, dy)"
    by (simp add: dict_index_DIRS_delta)
  show ?thesis
  proof (cases "in_grid p (x + dx) (y + dy)")
    case False
    with assms di dd show ?thesis by (simp add: define_edge_def)
  next
    case True
    obtain v st' where nv: "new_var (cell_name ''E'' k x y @ ''_'' @ D) st = (v, st')"
      by (metis surj_pair)
    from new_var_pos [OF assms(2) nv] have v: "1 \<le> v" and i: "var_inv st'" by simp_all
    from True nv di have
      "define_edge p k x y D (vt, st)
         = Inr (vt\<lparr>E_vars := dict_set (E_vars vt) (k, x, y, D) v\<rparr>, st')"
      by (simp add: define_edge_def)
    with True v i assms(3) dd show ?thesis
      by (simp add: pos_tab_set dom_dict_set)
  qed
qed

lemma define_edges_effect:
  assumes "set ds \<subseteq> set DIRS_LIST" "var_inv st" "pos_tab (E_vars vt)"
  shows "\<exists>vt' st'. for_each (define_edge p k x y) ds (vt, st) = Inr (vt', st') \<and> var_inv st'
     \<and> L_vars vt' = L_vars vt \<and> T_vars vt' = T_vars vt \<and> S_vars vt' = S_vars vt
     \<and> cells_lines vt' = cells_lines vt \<and> pos_tab (E_vars vt')
     \<and> dom (dict_get (E_vars vt')) = dom (dict_get (E_vars vt))
          \<union> {(k, x, y, D) | D. D \<in> set ds \<and> in_grid p (x + fst (delta D)) (y + snd (delta D))}"
  using assms
proof (induction ds arbitrary: vt st)
  case Nil
  then show ?case by simp
next
  case (Cons D ds)
  from Cons.prems(1) have D: "D \<in> set DIRS_LIST" and ds: "set ds \<subseteq> set DIRS_LIST" by auto
  from define_edge_effect [OF D Cons.prems(2,3), of p k x y] obtain vt1 st1 where
    a: "define_edge p k x y D (vt, st) = Inr (vt1, st1)" and i1: "var_inv st1"
    and u1: "L_vars vt1 = L_vars vt" "T_vars vt1 = T_vars vt" "S_vars vt1 = S_vars vt"
      "cells_lines vt1 = cells_lines vt"
    and p1: "pos_tab (E_vars vt1)"
    and d1: "dom (dict_get (E_vars vt1)) = dom (dict_get (E_vars vt))
          \<union> (if in_grid p (x + fst (delta D)) (y + snd (delta D)) then {(k, x, y, D)} else {})"
    by blast
  from Cons.IH [OF ds i1 p1] obtain vt' st' where
    b: "for_each (define_edge p k x y) ds (vt1, st1) = Inr (vt', st')" and i2: "var_inv st'"
    and u2: "L_vars vt' = L_vars vt1" "T_vars vt' = T_vars vt1" "S_vars vt' = S_vars vt1"
      "cells_lines vt' = cells_lines vt1"
    and p2: "pos_tab (E_vars vt')"
    and d2: "dom (dict_get (E_vars vt')) = dom (dict_get (E_vars vt1))
          \<union> {(k, x, y, D) | D. D \<in> set ds \<and> in_grid p (x + fst (delta D)) (y + snd (delta D))}"
    by blast
  have "dom (dict_get (E_vars vt')) = dom (dict_get (E_vars vt))
          \<union> {(k, x, y, D') | D'. D' \<in> set (D # ds)
               \<and> in_grid p (x + fst (delta D')) (y + snd (delta D'))}"
    unfolding d2 d1 by auto
  with a b i2 u1 u2 p2 show ?case by simp
qed

lemma cell_step_inv:
  assumes inv: "tables_inv p pre (vt, st)" and fresh: "ev_key ev \<notin> ev_key ` set pre"
  shows "\<exists>vs'. cell_step p ev (vt, st) = Inr vs' \<and> tables_inv p (pre @ [ev]) vs'"
proof -
  obtain k s e x y where ev: "ev = (k, s, e, x, y)" by (cases ev) auto
  from inv have i0: "var_inv st"
    and dL: "dom (dict_get (L_vars vt)) = ev_key ` set pre"
    and dS: "dom (dict_get (S_vars vt)) = ev_key ` set pre"
    and dT: "dom (dict_get (T_vars vt)) = ev_key ` {ev \<in> set pre. ev_inner ev}"
    and dE: "dom (dict_get (E_vars vt)) =
            {(k, x, y, D) | k x y D s e. (k, s, e, x, y) \<in> set pre \<and> D \<in> set DIRS_LIST
               \<and> in_grid p (x + fst (delta D)) (y + snd (delta D))}"
    and pL: "pos_tab (L_vars vt)" and pS: "pos_tab (S_vars vt)"
    and pT: "pos_tab (T_vars vt)" and pE: "pos_tab (E_vars vt)"
    and distT: "distinct (map fst (T_vars vt))"
    and cl0: "\<And>a b. dict_get (cells_lines vt) (a, b) =
               (if filter (\<lambda>ev. ev_cell ev = (a, b)) pre = [] then None
                else Some (map (\<lambda>ev. the (dict_get (L_vars vt) (ev_key ev)))
                             (filter (\<lambda>ev. ev_cell ev = (a, b)) pre)))"
    unfolding tables_inv_def by simp_all
  have cl: "dict_get (cells_lines vt) c =
               (if filter (\<lambda>ev. ev_cell ev = c) pre = [] then None
                else Some (map (\<lambda>ev. the (dict_get (L_vars vt) (ev_key ev)))
                             (filter (\<lambda>ev. ev_cell ev = c) pre)))" for c
    using cl0 [of "fst c" "snd c"] by simp
  obtain l st1 where nl: "new_var (cell_name ''L'' k x y) st = (l, st1)" by (metis surj_pair)
  from new_var_pos [OF i0 nl] have l1: "1 \<le> l" and i1: "var_inv st1" by simp_all
  obtain t st1' where nt: "new_var (cell_name ''T'' k x y) st1 = (t, st1')" by (metis surj_pair)
  from new_var_pos [OF i1 nt] have t1: "1 \<le> t" and i1': "var_inv st1'" by simp_all
  define inner where "inner = ((x, y) \<noteq> s \<and> (x, y) \<noteq> e)"
  define st2 where "st2 = (if inner then st1' else st1)"
  have i2: "var_inv st2" using i1 i1' by (simp add: st2_def)
  obtain sv st3 where ns: "new_var (cell_name ''S'' k x y) st2 = (sv, st3)" by (metis surj_pair)
  from new_var_pos [OF i2 ns] have s1: "1 \<le> sv" and i3: "var_inv st3" by simp_all
  define old where "old = (case dict_get (cells_lines vt) (x, y) of None \<Rightarrow> [] | Some vids \<Rightarrow> vids)"
  define vt4 where "vt4 = vt\<lparr>L_vars := dict_set (L_vars vt) (k, x, y) l,
      cells_lines := dict_set (cells_lines vt) (x, y) (old @ [l]),
      T_vars := (if inner then dict_set (T_vars vt) (k, x, y) t else T_vars vt),
      S_vars := dict_set (S_vars vt) (k, x, y) sv\<rparr>"
  have dc: "cell_step p ev (vt, st) = for_each (define_edge p k x y) DIRS_LIST (vt4, st3)"
  proof (cases inner)
    case True
    with ns have ns': "new_var (cell_name ''S'' k x y) st1' = (sv, st3)" by (simp add: st2_def)
    from True have io: "(x, y) \<noteq> s \<and> (x, y) \<noteq> e" by (simp add: inner_def)
    from nl nt ns' io True show ?thesis
      by (simp add: cell_step_def ev define_cell_def Let_def vt4_def old_def)
  next
    case False
    with ns have ns': "new_var (cell_name ''S'' k x y) st1 = (sv, st3)" by (simp add: st2_def)
    from False have io: "\<not> ((x, y) \<noteq> s \<and> (x, y) \<noteq> e)" by (simp add: inner_def)
    from nl ns' io False show ?thesis
      by (auto simp add: cell_step_def ev define_cell_def Let_def vt4_def old_def)
  qed
  have pE4: "pos_tab (E_vars vt4)" using pE by (simp add: vt4_def)
  from define_edges_effect [OF subset_refl i3 pE4, of p k x y] obtain vt' st' where
    fe: "for_each (define_edge p k x y) DIRS_LIST (vt4, st3) = Inr (vt', st')"
    and i': "var_inv st'"
    and uL: "L_vars vt' = L_vars vt4" and uT: "T_vars vt' = T_vars vt4"
    and uS: "S_vars vt' = S_vars vt4" and uC: "cells_lines vt' = cells_lines vt4"
    and pE': "pos_tab (E_vars vt')"
    and dE': "dom (dict_get (E_vars vt')) = dom (dict_get (E_vars vt4))
          \<union> {(k, x, y, D) | D. D \<in> set DIRS_LIST
               \<and> in_grid p (x + fst (delta D)) (y + snd (delta D))}"
    by blast
  have key: "ev_key ev = (k, x, y)" by (simp add: ev ev_key_def)
  have inn: "ev_inner ev = inner" by (simp add: ev ev_inner_def inner_def)
  have c1: "dom (dict_get (L_vars vt')) = ev_key ` set (pre @ [ev])"
    unfolding uL by (simp add: vt4_def dom_dict_set dL key)
  have c2: "dom (dict_get (S_vars vt')) = ev_key ` set (pre @ [ev])"
    unfolding uS by (simp add: vt4_def dom_dict_set dS key)
  have c3: "dom (dict_get (T_vars vt')) = ev_key ` {ev' \<in> set (pre @ [ev]). ev_inner ev'}"
  proof (cases inner)
    case True
    have "{ev' \<in> set (pre @ [ev]). ev_inner ev'} = insert ev {ev' \<in> set pre. ev_inner ev'}"
      using True inn by auto
    then show ?thesis unfolding uT using True key by (simp add: vt4_def dom_dict_set dT)
  next
    case False
    have "{ev' \<in> set (pre @ [ev]). ev_inner ev'} = {ev' \<in> set pre. ev_inner ev'}"
      using False inn by auto
    then show ?thesis unfolding uT using False by (simp add: vt4_def dT)
  qed
  have c4: "dom (dict_get (E_vars vt')) =
            {(k, x, y, D) | k x y D s e. (k, s, e, x, y) \<in> set (pre @ [ev]) \<and> D \<in> set DIRS_LIST
               \<and> in_grid p (x + fst (delta D)) (y + snd (delta D))}"
  proof -
    obtain s1 s2 e1 e2 where se: "s = (s1, s2)" "e = (e1, e2)" by (cases s, cases e) auto
    show ?thesis
      unfolding dE' by (auto simp: vt4_def dE ev se) blast+
  qed
  have c5: "pos_tab (L_vars vt')" unfolding uL using pL l1 by (simp add: vt4_def pos_tab_set)
  have c6: "pos_tab (S_vars vt')" unfolding uS using pS s1 by (simp add: vt4_def pos_tab_set)
  have c7: "pos_tab (T_vars vt')" unfolding uT using pT t1 by (simp add: vt4_def pos_tab_set)
  have c8: "distinct (map fst (T_vars vt'))"
    unfolding uT using distT by (simp add: vt4_def dict_set_keys_distinct)
  have stable: "\<And>ev'. ev' \<in> set pre \<Longrightarrow>
      dict_get (L_vars vt') (ev_key ev') = dict_get (L_vars vt) (ev_key ev')"
  proof -
    fix ev' assume "ev' \<in> set pre"
    with fresh have "ev_key ev' \<noteq> (k, x, y)" using key by force
    then show "dict_get (L_vars vt') (ev_key ev') = dict_get (L_vars vt) (ev_key ev')"
      unfolding uL by (simp add: vt4_def dict_get_set)
  qed
  have newl: "dict_get (L_vars vt') (ev_key ev) = Some l"
    unfolding uL by (simp add: vt4_def dict_get_set key)
  have mapstable: "\<And>c. map (\<lambda>ev. the (dict_get (L_vars vt') (ev_key ev)))
                             (filter (\<lambda>ev. ev_cell ev = c) pre)
      = map (\<lambda>ev. the (dict_get (L_vars vt) (ev_key ev))) (filter (\<lambda>ev. ev_cell ev = c) pre)"
    by (rule map_cong) (auto simp: stable)
  have oldeq: "old = map (\<lambda>ev. the (dict_get (L_vars vt) (ev_key ev)))
                             (filter (\<lambda>ev. ev_cell ev = (x, y)) pre)"
    unfolding old_def cl by simp
  have c9: "\<forall>c. dict_get (cells_lines vt') c =
               (if filter (\<lambda>ev. ev_cell ev = c) (pre @ [ev]) = [] then None
                else Some (map (\<lambda>ev. the (dict_get (L_vars vt') (ev_key ev)))
                             (filter (\<lambda>ev. ev_cell ev = c) (pre @ [ev]))))"
  proof
    fix c
    show "dict_get (cells_lines vt') c =
               (if filter (\<lambda>ev. ev_cell ev = c) (pre @ [ev]) = [] then None
                else Some (map (\<lambda>ev. the (dict_get (L_vars vt') (ev_key ev)))
                             (filter (\<lambda>ev. ev_cell ev = c) (pre @ [ev]))))"
    proof (cases "c = (x, y)")
      case True
      then have ec: "ev_cell ev = c" by (simp add: ev ev_cell_def)
      have "dict_get (cells_lines vt') c = Some (old @ [l])"
        unfolding uC by (simp add: vt4_def dict_get_set True)
      with ec show ?thesis
        using mapstable [of c] oldeq newl True by simp
    next
      case False
      then have ec: "ev_cell ev \<noteq> c" by (auto simp: ev ev_cell_def)
      have "dict_get (cells_lines vt') c = dict_get (cells_lines vt) c"
        unfolding uC using False by (simp add: vt4_def dict_get_set)
      with ec show ?thesis using mapstable [of c] cl [of c] by simp
    qed
  qed
  have "tables_inv p (pre @ [ev]) (vt', st')"
    unfolding tables_inv_def using i' c1 c2 c3 c4 c5 c6 c7 pE' c8 c9 by simp
  with dc fe show ?thesis by simp
qed

lemma tables_inv_init: "tables_inv p [] (init_tables, init_state)"
  by (simp add: tables_inv_def init_tables_def var_inv_init pos_tab_def dict_get_def [abs_def])

lemma for_each_prefix_total_aux:
  assumes "Inv pre s" and "distinct (map g (pre @ xs))"
    and "\<And>pre x t. Inv pre t \<Longrightarrow> g x \<notin> g ` set pre
           \<Longrightarrow> \<exists>t'. f x t = Inr t' \<and> Inv (pre @ [x]) t'"
  shows "\<exists>s'. for_each f xs s = Inr s' \<and> Inv (pre @ xs) s'"
  using assms(1,2)
proof (induction xs arbitrary: pre s)
  case Nil
  then show ?case by simp
next
  case (Cons x xs)
  from Cons.prems(2) have fresh: "g x \<notin> g ` set pre" by auto
  from assms(3) [OF Cons.prems(1) fresh] obtain s1 where
    s1: "f x s = Inr s1" and i1: "Inv (pre @ [x]) s1" by blast
  from Cons.prems(2) have d: "distinct (map g ((pre @ [x]) @ xs))" by simp
  from Cons.IH [OF i1 d] s1 show ?case by simp
qed

lemma for_each_prefix_total:
  assumes "Inv [] s" and "distinct (map g xs)"
    and "\<And>pre x t. Inv pre t \<Longrightarrow> g x \<notin> g ` set pre
           \<Longrightarrow> \<exists>t'. f x t = Inr t' \<and> Inv (pre @ [x]) t'"
  shows "\<exists>s'. for_each f xs s = Inr s' \<and> Inv xs s'"
  using for_each_prefix_total_aux [of Inv "[]" s g xs f] assms by simp

lemma concat_map_product:
  "concat (map (\<lambda>x. map (\<lambda>y. h x y) ys) xs) = map (\<lambda>(x, y). h x y) (List.product xs ys)"
  by (induction xs) (simp_all add: comp_def)

lemma line_events_product:
  "line_events p (k, s, e) =
     map (\<lambda>(x, y). (k, s, e, x, y)) (List.product (py_range (N p)) (py_range (M p)))"
  by (simp add: line_events_def concat_map_product)

lemma distinct_py_range: "distinct (py_range n)"
  by (simp add: py_range_def)

lemma set_py_range_iff: "x \<in> set (py_range n) \<longleftrightarrow> 0 \<le> x \<and> x < n"
  by (auto simp: py_range_def)

lemma set_line_events:
  "set (line_events p (k, s, e)) = {(k, s, e, x, y) | x y. in_grid p x y}"
  by (auto simp: line_events_product in_grid_def set_py_range_iff)

lemma distinct_line_keys: "distinct (map ev_key (line_events p ks))"
proof -
  obtain k s e where ks: "ks = (k, s, e)" by (cases ks) auto
  have "map ev_key (line_events p (k, s, e))
      = map (\<lambda>(x, y). (k, x, y)) (List.product (py_range (N p)) (py_range (M p)))"
    by (simp add: line_events_product ev_key_def comp_def case_prod_beta)
  moreover have "distinct (map (\<lambda>(x, y). (k, x, y)) (List.product (py_range (N p)) (py_range (M p))))"
    by (auto simp: distinct_map distinct_product distinct_py_range inj_on_def)
  ultimately show ?thesis by (simp add: ks)
qed

lemma distinct_concat_tagged:
  assumes "distinct (map tag xs)" and "\<And>x. x \<in> set xs \<Longrightarrow> distinct (f x)"
    and "\<And>x y. x \<in> set xs \<Longrightarrow> y \<in> set (f x) \<Longrightarrow> h y = tag x"
  shows "distinct (concat (map f xs))"
  using assms
proof (induction xs)
  case Nil
  then show ?case by simp
next
  case (Cons x xs)
  have "set (f x) \<inter> (\<Union>z \<in> set xs. set (f z)) = {}"
  proof (rule ccontr)
    assume "set (f x) \<inter> (\<Union>z \<in> set xs. set (f z)) \<noteq> {}"
    then obtain y z where y: "y \<in> set (f x)" and z: "z \<in> set xs" "y \<in> set (f z)" by auto
    from Cons.prems(3) [of x y] y have "h y = tag x" by simp
    moreover from Cons.prems(3) [of z y] z have "h y = tag z" by simp
    ultimately have "tag x = tag z" by simp
    then have "tag x \<in> tag ` set xs" using z(1) by (rule_tac image_eqI)
    with Cons.prems(1) show False by simp
  qed
  moreover have "distinct (concat (map f xs))"
    by (rule Cons.IH) (use Cons.prems in auto)
  ultimately show ?case using Cons.prems(2) by simp
qed

lemma py_enumerate_fst: "map fst (py_enumerate xs) = map int [0..<length xs]"
  by (simp add: py_enumerate_def)

lemma set_py_enumerate: "set (py_enumerate xs) = {(int i, xs ! i) | i. i < length xs}"
proof -
  have "set (zip (map int [0..<length xs]) xs) = {(int i, xs ! i) | i. i < length xs}"
  proof (intro set_eqI iffI)
    fix z assume "z \<in> set (zip (map int [0..<length xs]) xs)"
    then obtain i where "i < length xs" "z = (map int [0..<length xs] ! i, xs ! i)"
      by (auto simp: set_zip)
    then show "z \<in> {(int i, xs ! i) | i. i < length xs}" by auto
  next
    fix z assume "z \<in> {(int i, xs ! i) | i. i < length xs}"
    then obtain i where i: "i < length xs" "z = (int i, xs ! i)" by auto
    then have "z = (map int [0..<length xs] ! i, xs ! i)" by simp
    with i(1) show "z \<in> set (zip (map int [0..<length xs]) xs)"
      unfolding set_zip by force
  qed
  then show ?thesis by (simp add: py_enumerate_def)
qed

lemma distinct_event_keys: "distinct (map ev_key (events p))"
proof -
  have "distinct (concat (map (\<lambda>ks. map ev_key (line_events p ks)) (py_enumerate (lines_spec p))))"
  proof (rule distinct_concat_tagged [where tag = fst and h = fst])
    show "distinct (map fst (py_enumerate (lines_spec p)))"
      by (simp add: py_enumerate_fst distinct_map inj_on_def)
  next
    fix ks show "distinct (map ev_key (line_events p ks))" by (rule distinct_line_keys)
  next
    fix ks y assume "y \<in> set (map ev_key (line_events p ks))"
    then show "fst y = fst ks"
      by (cases ks) (auto simp: set_line_events ev_key_def)
  qed
  then show ?thesis by (simp add: events_def map_concat comp_def)
qed

lemma set_line_events_gen:
  "set (line_events p ks) = {(fst ks, fst (snd ks), snd (snd ks), x, y) | x y. in_grid p x y}"
  using set_line_events [of p "fst ks" "fst (snd ks)" "snd (snd ks)"] by simp

lemma set_events:
  "set (events p) = {(int i, fst (lines_spec p ! i), snd (lines_spec p ! i), x, y) | i x y.
      i < length (lines_spec p) \<and> in_grid p x y}"
proof (intro set_eqI iffI)
  fix ev assume "ev \<in> set (events p)"
  then obtain ks where ks: "ks \<in> set (py_enumerate (lines_spec p))"
    and ev: "ev \<in> set (line_events p ks)"
    by (auto simp: events_def)
  from ks obtain i where i: "i < length (lines_spec p)" "ks = (int i, lines_spec p ! i)"
    by (auto simp: set_py_enumerate)
  from ev obtain x y where "ev = (fst ks, fst (snd ks), snd (snd ks), x, y)" "in_grid p x y"
    unfolding set_line_events_gen by blast
  with i have "ev = (int i, fst (lines_spec p ! i), snd (lines_spec p ! i), x, y)"
    "in_grid p x y" by simp_all
  with i(1) show "ev \<in> {(int i, fst (lines_spec p ! i), snd (lines_spec p ! i), x, y) | i x y.
      i < length (lines_spec p) \<and> in_grid p x y}" by blast
next
  fix ev assume "ev \<in> {(int i, fst (lines_spec p ! i), snd (lines_spec p ! i), x, y) | i x y.
      i < length (lines_spec p) \<and> in_grid p x y}"
  then obtain i x y where i: "i < length (lines_spec p)" and g: "in_grid p x y"
    and ev: "ev = (int i, fst (lines_spec p ! i), snd (lines_spec p ! i), x, y)" by blast
  define ks where "ks = (int i, lines_spec p ! i)"
  from i have m: "ks \<in> set (py_enumerate (lines_spec p))"
    unfolding ks_def set_py_enumerate by blast
  have "ev = (fst ks, fst (snd ks), snd (snd ks), x, y)" using ev by (simp add: ks_def)
  with g have "ev \<in> set (line_events p ks)"
    unfolding set_line_events_gen by blast
  with m show "ev \<in> set (events p)" unfolding events_def by auto
qed

lemma define_vars_tables:
  "\<exists>vt st. define_vars p = Inr (vt, st) \<and> tables_inv p (events p) (vt, st)"
proof -
  have "\<exists>vs'. for_each (cell_step p) (events p) (init_tables, init_state) = Inr vs'
      \<and> tables_inv p (events p) vs'"
  proof (rule for_each_prefix_total [where g = ev_key])
    show "tables_inv p [] (init_tables, init_state)" by (rule tables_inv_init)
    show "distinct (map ev_key (events p))" by (rule distinct_event_keys)
  next
    fix pre x t
    assume "tables_inv p pre t" "ev_key x \<notin> ev_key ` set pre"
    then show "\<exists>t'. cell_step p x t = Inr t' \<and> tables_inv p (pre @ [x]) t'"
      using cell_step_inv [of p pre "fst t" "snd t" x] by simp
  qed
  then show ?thesis by (auto simp: define_vars_events)
qed

lemma filter_eq_singleton:
  "distinct zs \<Longrightarrow> filter (\<lambda>z. z = c) zs = (if c \<in> set zs then [c] else [])"
  by (induction zs) auto

lemma filter_line_events:
  "filter (\<lambda>ev. ev_cell ev = c) (line_events p ks)
     = (if in_grid p (fst c) (snd c) then [(fst ks, fst (snd ks), snd (snd ks), fst c, snd c)] else [])"
proof -
  obtain k s e where ks: "ks = (k, s, e)" by (cases ks) auto
  let ?zs = "List.product (py_range (N p)) (py_range (M p))"
  have d: "distinct ?zs" by (simp add: distinct_product distinct_py_range)
  have "filter (\<lambda>ev. ev_cell ev = c) (line_events p (k, s, e))
      = map (\<lambda>(x, y). (k, s, e, x, y)) (filter (\<lambda>z. z = c) ?zs)"
    by (simp add: line_events_product filter_map comp_def ev_cell_def case_prod_beta)
  also have "\<dots> = (if c \<in> set ?zs then [(k, s, e, fst c, snd c)] else [])"
    by (simp add: filter_eq_singleton [OF d] case_prod_beta)
  also have "c \<in> set ?zs \<longleftrightarrow> in_grid p (fst c) (snd c)"
    by (cases c) (auto simp: in_grid_def set_py_range_iff)
  finally show ?thesis by (simp add: ks)
qed

lemma filter_events:
  "filter (\<lambda>ev. ev_cell ev = c) (events p)
     = (if in_grid p (fst c) (snd c)
        then map (\<lambda>ks. (fst ks, fst (snd ks), snd (snd ks), fst c, snd c)) (py_enumerate (lines_spec p))
        else [])"
proof -
  have "filter (\<lambda>ev. ev_cell ev = c) (events p)
      = concat (map (\<lambda>ks. filter (\<lambda>ev. ev_cell ev = c) (line_events p ks)) (py_enumerate (lines_spec p)))"
    by (simp add: events_def filter_concat comp_def)
  also have "\<dots> = (if in_grid p (fst c) (snd c)
        then map (\<lambda>ks. (fst ks, fst (snd ks), snd (snd ks), fst c, snd c)) (py_enumerate (lines_spec p))
        else [])"
    unfolding filter_line_events by (induction "py_enumerate (lines_spec p)") auto
  finally show ?thesis .
qed

lemma tables_final:
  assumes "define_vars p = Inr (vt, st)"
  shows "tables_inv p (events p) (vt, st)"
  using define_vars_tables [of p] assms by auto

lemma event_keys:
  "ev_key ` set (events p) = {(int i, x, y) | i x y. i < length (lines_spec p) \<and> in_grid p x y}"
proof (intro set_eqI iffI)
  fix z assume "z \<in> ev_key ` set (events p)"
  then obtain ev where "ev \<in> set (events p)" "z = ev_key ev" by blast
  then obtain i x y where "i < length (lines_spec p)" "in_grid p x y" "z = (int i, x, y)"
    unfolding set_events by (auto simp: ev_key_def)
  then show "z \<in> {(int i, x, y) | i x y. i < length (lines_spec p) \<and> in_grid p x y}" by blast
next
  fix z assume "z \<in> {(int i, x, y) | i x y. i < length (lines_spec p) \<and> in_grid p x y}"
  then obtain i x y where i: "i < length (lines_spec p)" "in_grid p x y" and z: "z = (int i, x, y)"
    by blast
  define ev where "ev = (int i, fst (lines_spec p ! i), snd (lines_spec p ! i), x, y)"
  from i have "ev \<in> set (events p)" unfolding set_events ev_def by blast
  moreover have "ev_key ev = z" by (simp add: ev_def ev_key_def z)
  ultimately show "z \<in> ev_key ` set (events p)" by blast
qed

lemma L_vars_defined:
  assumes "define_vars p = Inr (vt, st)"
  shows "dict_get (L_vars vt) (k, x, y) \<noteq> None
     \<longleftrightarrow> (\<exists>i < length (lines_spec p). k = int i) \<and> in_grid p x y"
proof -
  from tables_final [OF assms] have "dom (dict_get (L_vars vt)) = ev_key ` set (events p)"
    unfolding tables_inv_def by simp
  then have "dict_get (L_vars vt) (k, x, y) \<noteq> None \<longleftrightarrow> (k, x, y) \<in> ev_key ` set (events p)"
    by (auto simp: dom_def)
  also have "\<dots> \<longleftrightarrow> (\<exists>i < length (lines_spec p). k = int i) \<and> in_grid p x y"
    unfolding event_keys by auto
  finally show ?thesis .
qed

lemma cells_lines_final:
  assumes "define_vars p = Inr (vt, st)"
  shows "dict_get (cells_lines vt) c =
     (if in_grid p (fst c) (snd c) \<and> lines_spec p \<noteq> []
      then Some (map (\<lambda>i. the (dict_get (L_vars vt) (int i, fst c, snd c))) [0..<length (lines_spec p)])
      else None)"
proof -
  from tables_final [OF assms] have
    cl: "\<And>a b. dict_get (cells_lines vt) (a, b) =
               (if filter (\<lambda>ev. ev_cell ev = (a, b)) (events p) = [] then None
                else Some (map (\<lambda>ev. the (dict_get (L_vars vt) (ev_key ev)))
                             (filter (\<lambda>ev. ev_cell ev = (a, b)) (events p))))"
    unfolding tables_inv_def by simp
  have e: "map (\<lambda>ev. the (dict_get (L_vars vt) (ev_key ev)))
        (map (\<lambda>ks. (fst ks, fst (snd ks), snd (snd ks), fst c, snd c)) (py_enumerate (lines_spec p)))
      = map (\<lambda>i. the (dict_get (L_vars vt) (int i, fst c, snd c))) [0..<length (lines_spec p)]"
  proof -
    have "map (\<lambda>ev. the (dict_get (L_vars vt) (ev_key ev)))
        (map (\<lambda>ks. (fst ks, fst (snd ks), snd (snd ks), fst c, snd c)) (py_enumerate (lines_spec p)))
      = map (\<lambda>k. the (dict_get (L_vars vt) (k, fst c, snd c))) (map fst (py_enumerate (lines_spec p)))"
      by (simp add: comp_def ev_key_def)
    then show ?thesis by (simp add: py_enumerate_fst comp_def)
  qed
  have n: "py_enumerate (lines_spec p) = [] \<longleftrightarrow> lines_spec p = []"
    by (simp add: py_enumerate_def)
  show ?thesis
    using cl [of "fst c" "snd c"] e n by (simp add: filter_events)
qed

lemma fold_emit:
  assumes "x \<in> set xs" and "\<And>s. R (f x s)" and "\<And>y s. R s \<Longrightarrow> R (f y s)"
  shows "R (fold f xs s)"
  using assms(1)
proof (induction xs arbitrary: s)
  case Nil
  then show ?case by simp
next
  case (Cons a xs)
  show ?case
  proof (cases "x \<in> set xs")
    case True
    then show ?thesis using Cons.IH by simp
  next
    case False
    with Cons.prems have "a = x" by simp
    have "R (fold f xs (f x s))"
      by (rule fold_pres [where Q = R]) (auto intro: assms(2,3))
    with \<open>a = x\<close> show ?thesis by simp
  qed
qed

lemma cnf_sat_mem: "cnf_sat \<sigma> cs \<Longrightarrow> c \<in> set cs \<Longrightarrow> clause_sat \<sigma> c"
  by (simp add: cnf_sat_def list_all_iff)

lemma contradictory_pair_unsat:
  assumes "[1] \<in> set cs" "[- 1] \<in> set cs"
  shows "\<not> cnf_sat \<sigma> cs"
proof
  assume s: "cnf_sat \<sigma> cs"
  from cnf_sat_mem [OF s assms(1)] have "\<sigma> 1" by (simp add: clause_sat_def lit_true_def)
  moreover from cnf_sat_mem [OF s assms(2)] have "\<not> \<sigma> 1" by (simp add: clause_sat_def lit_true_def)
  ultimately show False by simp
qed

lemma enforce_popular_fold:
  "mode p = 2 \<Longrightarrow> enforce_popular_cell_constraint p vt st = fold (popular_step vt) (popular p) st"
proof -
  have "(\<lambda>(px, py) st.
                   let vids = (case dict_get (cells_lines vt) (px, py) of None \<Rightarrow> [] | Some vs \<Rightarrow> vs)
                   in if vids \<noteq> [] then add_clause vids st
                      else add_clause [- 1] (add_clause [1] st)) = popular_step vt"
    by (intro ext) (simp add: popular_step_def split: prod.splits)
  then show "mode p = 2 \<Longrightarrow> ?thesis"
    by (cases "popular p = []") (simp_all add: enforce_popular_cell_constraint_def)
qed

lemma popular_step_mono: "cl \<in> set (clauses st) \<Longrightarrow> cl \<in> set (clauses (popular_step vt c st))"
  by (simp add: popular_step_def Let_def add_clause_fields)

text \<open>
  Claim C8. In a mode-2 problem, for every popular cell that lies in the grid while there
  is at least one line (so that \<open>cells_lines\<close> holds occupant variables for it), the
  clause list contains the clause made of the \<open>occupied\<close> variables of all lines at
  that cell, in line order; for every other popular cell, which has no occupant variable
  at all, the clause list contains the pair \<open>[1]\<close>, \<open>[-1]\<close>, and no assignment
  satisfies the emitted clauses.
\<close>

theorem popular_cell_clause:
  assumes "encode_state p = Inr (vt, st)" and "mode p = 2" and "c \<in> set (popular p)"
  shows "if in_grid p (fst c) (snd c) \<and> lines_spec p \<noteq> []
         then \<exists>vids. length vids = length (lines_spec p)
                \<and> (\<forall>i < length (lines_spec p).
                      dict_get (L_vars vt) (int i, fst c, snd c) = Some (vids ! i))
                \<and> dict_get (cells_lines vt) c = Some vids
                \<and> vids \<in> set (clauses st)
         else dict_get (cells_lines vt) c = None
              \<and> [1] \<in> set (clauses st) \<and> [- 1] \<in> set (clauses st)
              \<and> (\<forall>\<sigma>. \<not> cnf_sat \<sigma> (clauses st))"
proof -
  from assms(1) obtain st0 st5 where dv: "define_vars p = Inr (vt, st0)"
    and st: "st = enforce_popular_cell_constraint p vt st5"
    unfolding encode_state_def apply_all_constraints_def by (auto split: sum.splits)
  from st assms(2) have f: "st = fold (popular_step vt) (popular p) st5"
    by (simp add: enforce_popular_fold)
  note cl = cells_lines_final [OF dv, of c]
  show ?thesis
  proof (cases "in_grid p (fst c) (snd c) \<and> lines_spec p \<noteq> []")
    case True
    define vids where "vids = map (\<lambda>i. the (dict_get (L_vars vt) (int i, fst c, snd c)))
        [0..<length (lines_spec p)]"
    from True cl have g: "dict_get (cells_lines vt) c = Some vids" by (simp add: vids_def)
    from True have ne: "vids \<noteq> []" by (simp add: vids_def)
    have len: "length vids = length (lines_spec p)" by (simp add: vids_def)
    have look: "\<forall>i < length (lines_spec p).
        dict_get (L_vars vt) (int i, fst c, snd c) = Some (vids ! i)"
    proof (intro allI impI)
      fix i assume i: "i < length (lines_spec p)"
      with True have "dict_get (L_vars vt) (int i, fst c, snd c) \<noteq> None"
        using L_vars_defined [OF dv, of "int i" "fst c" "snd c"] by auto
      with i show "dict_get (L_vars vt) (int i, fst c, snd c) = Some (vids ! i)"
        by (auto simp: vids_def)
    qed
    have "vids \<in> set (clauses (fold (popular_step vt) (popular p) st5))"
      by (rule fold_emit [OF assms(3)])
         (simp_all add: popular_step_mono, simp add: popular_step_def g ne add_clause_fields)
    with True len look g f show ?thesis by auto
  next
    case False
    with cl have g: "dict_get (cells_lines vt) c = None" by simp
    have a: "[1] \<in> set (clauses (fold (popular_step vt) (popular p) st5))"
      by (rule fold_emit [OF assms(3)])
         (simp_all add: popular_step_mono, simp add: popular_step_def g add_clause_fields)
    have b: "[- 1] \<in> set (clauses (fold (popular_step vt) (popular p) st5))"
      by (rule fold_emit [OF assms(3)])
         (simp_all add: popular_step_mono, simp add: popular_step_def g add_clause_fields)
    from a b f have "[1] \<in> set (clauses st)" "[- 1] \<in> set (clauses st)" by simp_all
    with False g show ?thesis using contradictory_pair_unsat by auto
  qed
qed

subsection \<open>What the encoder checks of its input\<close>







subsection \<open>The encoder evaluated on the concrete problems\<close>




lemma pop_define: "define_vars pop_problem = Inr (pop_tables, pop_state0)"
  by code_simp

lemma pop_apply: "apply_all_constraints pop_problem pop_tables pop_state0 = Inr pop_state"
  by code_simp

lemma pop_encode: "encode_state pop_problem = Inr (pop_tables, pop_state)"
  by (simp add: encode_state_def pop_define pop_apply)

lemma cyc_define: "define_vars cyc_problem = Inr (cyc_tables, cyc_state0)"
  by code_simp

lemma cyc_apply: "apply_all_constraints cyc_problem cyc_tables cyc_state0 = Inr cyc_state"
  by code_simp

lemma cyc_encode: "encode_state cyc_problem = Inr (cyc_tables, cyc_state)"
  by (simp add: encode_state_def cyc_define cyc_apply)

subsection \<open>The theorems at concrete problems\<close>

lemma if_holds_then: "(if c then a else b) \<Longrightarrow> c \<Longrightarrow> a"
  by simp

lemma if_fails_else: "(if c then a else b) \<Longrightarrow> \<not> c \<Longrightarrow> b"
  by simp



theorem popular_cell_clause_witness:
  "encode_state pop_problem = Inr (pop_tables, pop_state) \<and> mode pop_problem = 2
   \<and> (1, 0) \<in> set (popular pop_problem) \<and> (5, 5) \<in> set (popular pop_problem)
   \<and> [4] \<in> set (clauses pop_state)
   \<and> [1] \<in> set (clauses pop_state) \<and> [- 1] \<in> set (clauses pop_state)
   \<and> (\<forall>\<sigma>. \<not> cnf_sat \<sigma> (clauses pop_state))"
proof -
  have m: "mode pop_problem = 2" by (simp add: pop_problem_def)
  have p1: "((1, 0) :: cell) \<in> set (popular pop_problem)" by (simp add: pop_problem_def)
  have p2: "((5, 5) :: cell) \<in> set (popular pop_problem)" by (simp add: pop_problem_def)
  have g1: "in_grid pop_problem (fst ((1, 0) :: cell)) (snd ((1, 0) :: cell))
      \<and> lines_spec pop_problem \<noteq> []"
    by (simp add: in_grid_def pop_problem_def)
  have g2: "\<not> (in_grid pop_problem (fst ((5, 5) :: cell)) (snd ((5, 5) :: cell))
      \<and> lines_spec pop_problem \<noteq> [])"
    by (simp add: in_grid_def pop_problem_def)
  from if_holds_then [OF popular_cell_clause [OF pop_encode m p1] g1]
  obtain vids where v: "length vids = length (lines_spec pop_problem)"
    "\<forall>i < length (lines_spec pop_problem).
        dict_get (L_vars pop_tables) (int i, fst ((1, 0) :: cell), snd ((1, 0) :: cell))
          = Some (vids ! i)"
    "vids \<in> set (clauses pop_state)"
    by blast
  from v(1) have l1: "length vids = 1" by (simp add: pop_problem_def)
  from v(2) have "dict_get (L_vars pop_tables) (0, 1, 0) = Some (vids ! 0)"
    by (simp add: pop_problem_def)
  then have "vids ! 0 = 4" by (simp add: pop_tables_def dict_get_def)
  with l1 have "vids = [4]" by (cases vids) auto
  with v(3) have c1: "[4] \<in> set (clauses pop_state)" by simp
  from if_fails_else [OF popular_cell_clause [OF pop_encode m p2] g2]
  have c2: "[1] \<in> set (clauses pop_state) \<and> [- 1] \<in> set (clauses pop_state)
      \<and> (\<forall>\<sigma>. \<not> cnf_sat \<sigma> (clauses pop_state))"
    by blast
  from pop_encode m p1 p2 c1 c2 show ?thesis by blast
qed

lemma cyc_sat: "cnf_sat cyc_assignment (clauses cyc_state)"
  by code_simp

lemma cyc_reach_only:
  "reach cyc_assignment cyc_tables 0 (0, 0) c \<Longrightarrow> c = (0, 0) \<or> c = (1, 0)"
proof (induction rule: reach.induct)
  case reach_start
  then show ?case by simp
next
  case (reach_step x y D e dx dy)
  from reach_step.IH have "(x, y) = (0, 0) \<or> (x, y) = (1, 0)" .
  then show ?case
  proof
    assume "(x, y) = (0, 0)"
    with reach_step.hyps(2,3,4) show ?thesis
      by (auto simp: cyc_tables_def dict_get_def DIRS_def cyc_assignment_def split: if_splits)
  next
    assume "(x, y) = (1, 0)"
    with reach_step.hyps(2,3,4) show ?thesis
      by (auto simp: cyc_tables_def dict_get_def DIRS_def cyc_assignment_def split: if_splits)
  qed
qed

text \<open>
  Claim C1 fails on the code. For the 2 x 3 grid with one line from \<open>(0,0)\<close> to
  \<open>(1,0)\<close> and turn budget 4 the emitted clauses are satisfied by
  \<open>cyc_assignment\<close>, in which line 0 occupies \<open>(0,1)\<close> (variable 5) although no
  chain of true edge variables of line 0 leads there from the start: the occupied cells
  hold a ring apart from the start-to-end path.
\<close>

theorem connectivity_cycle_not_excluded:
  "encode_state cyc_problem = Inr (cyc_tables, cyc_state)
   \<and> cnf_sat cyc_assignment (clauses cyc_state)
   \<and> dict_get (L_vars cyc_tables) (0, 0, 1) = Some 5 \<and> cyc_assignment 5
   \<and> \<not> reach cyc_assignment cyc_tables 0 (0, 0) (0, 1)"
proof -
  have a: "dict_get (L_vars cyc_tables) (0, 0, 1) = Some 5"
    by (simp add: cyc_tables_def dict_get_def)
  have b: "cyc_assignment 5" by (simp add: cyc_assignment_def)
  have c: "\<not> reach cyc_assignment cyc_tables 0 (0, 0) (0, 1)"
    using cyc_reach_only [of "(0, 1)"] by auto
  from cyc_encode cyc_sat a b c show ?thesis by blast
qed





end
